theory Spec2Isabelle
  imports Complex_Main "HOL-Library.Multiset"
begin

section \<open>Data model\<close>

text \<open>
  A pandas timestamp of the date index. Dates are day numbers; \<open>NaT\<close> is what
  \<^verbatim>\<open>pd.to_datetime(..., errors="coerce")\<close> leaves for a cell it cannot parse.
\<close>

datatype timestamp = NaT | Ts int

text \<open>
  A float64 cell. Finite floats are idealised as reals (no rounding, no signed zero);
  the two infinities and NaN are kept, because division by a zero standard deviation
  produces them. NaN is the missing value of pandas.
\<close>

datatype fl = Fin real | PInf | NInf | NaN

text \<open>
  A DataFrame: the index and the named columns, in column order. In a well-formed
  frame every column is as long as the index.
\<close>

record 'a dataframe =
  df_index :: "timestamp list"
  df_cols :: "(string \<times> 'a list) list"

definition wf_df :: "'a dataframe \<Rightarrow> bool" where
  "wf_df df = (\<forall>c \<in> set (df_cols df). length (snd c) = length (df_index df))"

definition col_names :: "'a dataframe \<Rightarrow> string list" where
  "col_names df = map fst (df_cols df)"

text \<open>\<^verbatim>\<open>df[name]\<close>, for a name that is among the columns.\<close>

definition get_col :: "'a dataframe \<Rightarrow> string \<Rightarrow> 'a list" where
  "get_col df name = (case map_of (df_cols df) name of Some c \<Rightarrow> c | None \<Rightarrow> [])"

datatype error = RuntimeError string | IndexError | InvalidIndexError | ValueError | TypeError

section \<open>compute\_series.py\<close>

record SeriesDef =
  sid :: string
  col :: string

definition SERIES :: "SeriesDef list" where
  "SERIES =
     [\<lparr>sid = ''BAMLC0A0CM'', col = ''IG_OAS''\<rparr>,
      \<lparr>sid = ''BAMLH0A0HYM2'', col = ''HY_OAS''\<rparr>,
      \<lparr>sid = ''BAA'', col = ''BAA_YIELD''\<rparr>,
      \<lparr>sid = ''DGS10'', col = ''DGS10''\<rparr>,
      \<lparr>sid = ''DGS2'', col = ''DGS2''\<rparr>,
      \<lparr>sid = ''DGS5'', col = ''DGS5''\<rparr>,
      \<lparr>sid = ''USREC'', col = ''USREC''\<rparr>,
      \<lparr>sid = ''BAMLC0A1CAAA'', col = ''AAA_OAS''\<rparr>,
      \<lparr>sid = ''BAMLC0A2CAA'', col = ''AA_OAS''\<rparr>,
      \<lparr>sid = ''BAMLC0A3CA'', col = ''A_OAS''\<rparr>,
      \<lparr>sid = ''BAMLC0A4CBBB'', col = ''BBB_OAS''\<rparr>]"

subsection \<open>The pandas operations used by the module\<close>

text \<open>
  \<^verbatim>\<open>sort_index()\<close> is an argsort of the index followed by a take on every column.
  The labels that are dates are sorted ascending, the positions of NaT labels follow in
  their original order. The sort is the stable one of HOL; on an index without repeated
  dates every sorting algorithm gives this result.
\<close>

fun day_of :: "timestamp \<Rightarrow> int" where
  "day_of (Ts d) = d"

definition argsort :: "timestamp list \<Rightarrow> nat list" where
  "argsort idx =
     (let pos = [0..<length idx] in
      sort_key (\<lambda>i. day_of (idx ! i)) (filter (\<lambda>i. idx ! i \<noteq> NaT) pos)
        @ filter (\<lambda>i. idx ! i = NaT) pos)"

definition take_rows :: "nat list \<Rightarrow> 'a list \<Rightarrow> 'a list" where
  "take_rows perm xs = map (\<lambda>i. xs ! i) perm"

definition sort_index :: "'a dataframe \<Rightarrow> 'a dataframe" where
  "sort_index df =
     (let perm = argsort (df_index df) in
      \<lparr>df_index = take_rows perm (df_index df),
       df_cols = map (\<lambda>(n, c). (n, take_rows perm c)) (df_cols df)\<rparr>)"

text \<open>
  \<^verbatim>\<open>pd.concat(frames, axis=1)\<close>: an outer join on the index. An empty list of frames
  gives \<^verbatim>\<open>ValueError\<close>. When no frame repeats a label, the new index is the union of the
  frames' indexes and every column is reindexed to it, NaN where its frame has no such
  label. A frame whose index is already the new index is not reindexed: a single frame, or
  frames that all have one and the same index, are laid side by side as they are, repeated
  labels or not. Otherwise some frame repeats a label and the indexes differ: the new index
  has every label as often as the frame that has it most often, sorted (dates ascending,
  NaT last); a frame with this very index is taken as it is, a frame without repeated
  labels is reindexed, and a frame with repeated labels and another index cannot be
  reindexed: pandas raises InvalidIndexError.
\<close>

definition union_indexes :: "timestamp list list \<Rightarrow> timestamp list" where
  "union_indexes idxs = remdups (concat idxs)"

definition union_repeated :: "timestamp list list \<Rightarrow> timestamp list" where
  "union_repeated idxs =
     (let u = concat (map (\<lambda>l. replicate (fold max (map (\<lambda>i. count_list i l) idxs) 0) l)
                          (remdups (concat idxs)))
      in take_rows (argsort u) u)"

definition reindex_col :: "timestamp list \<Rightarrow> fl list \<Rightarrow> timestamp list \<Rightarrow> fl list" where
  "reindex_col idx c new_idx =
     map (\<lambda>d. case map_of (zip idx c) d of Some v \<Rightarrow> v | None \<Rightarrow> NaN) new_idx"

definition concat_axis1 :: "fl dataframe list \<Rightarrow> error + fl dataframe" where
  "concat_axis1 frames =
     (if frames = [] then Inl ValueError
      else if \<forall>f \<in> set frames. distinct (df_index f) then
        (let idx = union_indexes (map df_index frames) in
         Inr \<lparr>df_index = idx,
              df_cols = concat (map (\<lambda>f. map (\<lambda>(n, c). (n, reindex_col (df_index f) c idx))
                                           (df_cols f)) frames)\<rparr>)
      else if \<forall>f \<in> set frames. df_index f = df_index (hd frames) then
        Inr \<lparr>df_index = df_index (hd frames), df_cols = concat (map df_cols frames)\<rparr>
      else
        (let idx = union_repeated (map df_index frames) in
         if \<forall>f \<in> set frames. df_index f = idx \<or> distinct (df_index f) then
           Inr \<lparr>df_index = idx,
                df_cols = concat (map (\<lambda>f. map (\<lambda>(n, c).
                             (n, if df_index f = idx then c else reindex_col (df_index f) c idx))
                           (df_cols f)) frames)\<rparr>
         else Inl InvalidIndexError))"

text \<open>\<^verbatim>\<open>ffill()\<close>: down each column, a NaN cell takes the last value seen above it.\<close>

fun ffill_from :: "fl \<Rightarrow> fl list \<Rightarrow> fl list" where
  "ffill_from prev [] = []"
| "ffill_from prev (x # xs) =
     (if x = NaN then prev # ffill_from prev xs else x # ffill_from x xs)"

definition ffill :: "fl dataframe \<Rightarrow> fl dataframe" where
  "ffill df = df\<lparr>df_cols := map (\<lambda>(n, c). (n, ffill_from NaN c)) (df_cols df)\<rparr>"

text \<open>\<^verbatim>\<open>out[name] = values\<close>: replaces the column of that name, or appends a new one.\<close>

definition set_col :: "'a dataframe \<Rightarrow> string \<Rightarrow> 'a list \<Rightarrow> 'a dataframe" where
  "set_col df name vals =
     (if name \<in> set (col_names df)
      then df\<lparr>df_cols := map (\<lambda>(n, c). if n = name then (n, vals) else (n, c)) (df_cols df)\<rparr>
      else df\<lparr>df_cols := df_cols df @ [(name, vals)]\<rparr>)"

text \<open>Float subtraction and division, with the IEEE results for NaN, infinities and zero.\<close>

fun fl_sub :: "fl \<Rightarrow> fl \<Rightarrow> fl" where
  "fl_sub NaN _ = NaN"
| "fl_sub _ NaN = NaN"
| "fl_sub (Fin a) (Fin b) = Fin (a - b)"
| "fl_sub (Fin a) PInf = NInf"
| "fl_sub (Fin a) NInf = PInf"
| "fl_sub PInf PInf = NaN"
| "fl_sub NInf NInf = NaN"
| "fl_sub PInf _ = PInf"
| "fl_sub NInf _ = NInf"

fun fl_div :: "fl \<Rightarrow> fl \<Rightarrow> fl" where
  "fl_div NaN _ = NaN"
| "fl_div _ NaN = NaN"
| "fl_div (Fin a) (Fin b) =
     (if b \<noteq> 0 then Fin (a / b)
      else if a = 0 then NaN else if a > 0 then PInf else NInf)"
| "fl_div (Fin a) _ = Fin 0"
| "fl_div PInf (Fin b) = (if b \<ge> 0 then PInf else NInf)"
| "fl_div NInf (Fin b) = (if b \<ge> 0 then NInf else PInf)"
| "fl_div _ _ = NaN"

text \<open>
  \<^verbatim>\<open>Series.rolling(window, min_periods)\<close> with its \<^verbatim>\<open>mean()\<close> and \<^verbatim>\<open>std(ddof=0)\<close>:
  pandas computes both by an online update in float arithmetic, whose rounding residue
  decides whether a deviation is exactly zero. They are not modelled: the two aggregates
  are parameters of \<^verbatim>\<open>add_derived\<close>, functions of the window, of \<open>min_periods\<close> and of
  the column.
\<close>

type_synonym rolling = "nat \<Rightarrow> nat \<Rightarrow> fl list \<Rightarrow> fl list"

subsection \<open>load\_series\<close>

text \<open>
  A CSV as \<^verbatim>\<open>pd.read_csv\<close> returns it: columns of cells under distinct names, at least
  one column. \<open>read_latest_csv\<close> stands for \<^verbatim>\<open>latest_csv_for\<close> followed by
  \<^verbatim>\<open>pd.read_csv\<close>: \<open>None\<close> when there is no file for the series. The files are tables,
  as the specification has its inputs; a file that \<^verbatim>\<open>pd.read_csv\<close> cannot read at all is
  outside the model. The parsers of pandas are parameters. \<^verbatim>\<open>pd.to_datetime\<close> settles
  on a format for the whole column and then reads each cell with it: \<open>to_datetime\<close>
  takes the cells of the column and gives the parser of one cell, which gives NaT for a
  cell it cannot read; \<open>to_numeric\<close> gives NaN for such a cell (\<^verbatim>\<open>errors="coerce"\<close>).

  After the renaming, a second column named like the series' column makes
  \<^verbatim>\<open>df[series.col]\<close> a frame, and \<^verbatim>\<open>pd.to_numeric\<close> raises TypeError. A series whose
  column is to be named \<open>DATE\<close> would give the renamed table two columns of that name,
  which \<^verbatim>\<open>set_index\<close> cannot take as the index (ValueError in the model; no series of
  \<open>SERIES\<close> has that name). Otherwise the frame that \<^verbatim>\<open>load_series\<close> returns has the
  value column only, so the model carries the date column and the value column through
  the renaming and the sort, and no other column of the file.
\<close>

record raw_table =
  first_column :: "string \<times> string list"
  more_columns :: "(string \<times> string list) list"

definition raw_columns :: "raw_table \<Rightarrow> (string \<times> string list) list" where
  "raw_columns df = first_column df # more_columns df"

definition raw_col :: "raw_table \<Rightarrow> string \<Rightarrow> string list" where
  "raw_col df name = (case map_of (raw_columns df) name of Some c \<Rightarrow> c | None \<Rightarrow> [])"

definition date_col_candidates :: "string list" where
  "date_col_candidates = [''DATE'', ''date'', ''observation_date'']"

definition date_col_of :: "raw_table \<Rightarrow> string" where
  "date_col_of df =
     (case find (\<lambda>c. c \<in> set (map fst (raw_columns df))) date_col_candidates of
        Some c \<Rightarrow> c
      | None \<Rightarrow> fst (first_column df))"

definition value_col_candidates :: "raw_table \<Rightarrow> string list" where
  "value_col_candidates df = filter (\<lambda>c. c \<noteq> date_col_of df) (map fst (raw_columns df))"

definition load_series ::
  "(string list \<Rightarrow> string \<Rightarrow> timestamp) \<Rightarrow> (string \<Rightarrow> fl) \<Rightarrow> (string \<Rightarrow> raw_table option)
     \<Rightarrow> SeriesDef \<Rightarrow> error + fl dataframe option" where
  "load_series to_datetime to_numeric read_latest_csv series =
     (case read_latest_csv (sid series) of
        None \<Rightarrow> Inr None
      | Some df \<Rightarrow>
          (case value_col_candidates df of
             [] \<Rightarrow> Inr None
           | value_col # others \<Rightarrow>
               (let date_cells = raw_col df (date_col_of df);
                    dates = map (to_datetime date_cells) date_cells;
                    sorted_df = sort_index \<lparr>df_index = dates,
                                            df_cols = [(col series, raw_col df value_col)]\<rparr>
                in if col series = ''DATE'' then Inl ValueError
                   else if col series \<in> set others then Inl TypeError
                   else Inr (Some \<lparr>df_index = df_index sorted_df,
                                   df_cols = map (\<lambda>(n, c). (n, map to_numeric c))
                                                 (df_cols sorted_df)\<rparr>))))"

subsection \<open>merge\_all\<close>

text \<open>
  The loop over the series: a series without a frame is skipped, and an exception raised
  while a series is loaded leaves \<^verbatim>\<open>merge_all\<close>.
\<close>

fun load_frames ::
  "(SeriesDef \<Rightarrow> error + fl dataframe option) \<Rightarrow> SeriesDef list \<Rightarrow> error + fl dataframe list" where
  "load_frames load [] = Inr []"
| "load_frames load (s # ss) =
     (case load s of
        Inl e \<Rightarrow> Inl e
      | Inr None \<Rightarrow> load_frames load ss
      | Inr (Some df) \<Rightarrow>
          (case load_frames load ss of Inl e \<Rightarrow> Inl e | Inr frames \<Rightarrow> Inr (df # frames)))"

text \<open>The rest of \<^verbatim>\<open>merge_all\<close>, from the test of \<^verbatim>\<open>frames\<close> on.\<close>

definition merge_frames :: "fl dataframe list \<Rightarrow> error + fl dataframe" where
  "merge_frames frames =
     (if frames = [] then Inl (RuntimeError ''No raw series found. Run fetch_fred.py first.'')
      else case concat_axis1 frames of
             Inl e \<Rightarrow> Inl e
           | Inr merged \<Rightarrow> Inr (ffill (sort_index merged)))"

definition merge_all ::
  "(string list \<Rightarrow> string \<Rightarrow> timestamp) \<Rightarrow> (string \<Rightarrow> fl) \<Rightarrow> (string \<Rightarrow> raw_table option)
     \<Rightarrow> error + fl dataframe" where
  "merge_all to_datetime to_numeric read_latest_csv =
     (case load_frames (load_series to_datetime to_numeric read_latest_csv) SERIES of
        Inl e \<Rightarrow> Inl e
      | Inr frames \<Rightarrow> merge_frames frames)"

subsection \<open>add\_derived\<close>

definition series_sub :: "fl list \<Rightarrow> fl list \<Rightarrow> fl list" where
  "series_sub a b = map2 fl_sub a b"

definition series_div :: "fl list \<Rightarrow> fl list \<Rightarrow> fl list" where
  "series_div a b = map2 fl_div a b"

definition window :: nat where
  "window = 90"

definition z_whitelist :: "string list" where
  "z_whitelist = [''IG_OAS'', ''HY_OAS'', ''HY_IG_SPREAD'', ''BAA_10Y_SPREAD'', ''TWOS_TENS'']"

text \<open>\<^verbatim>\<open>f"{c}_Z{window}"\<close> with the window of 90.\<close>

definition z_name :: "string \<Rightarrow> string" where
  "z_name c = c @ ''_Z90''"

text \<open>
  \<^verbatim>\<open>(out[c] - rolling.mean()) / rolling.std(ddof=0)\<close> with
  \<^verbatim>\<open>rolling = out[c].rolling(window, min_periods=window//3)\<close>.
\<close>

definition zscore :: "rolling \<Rightarrow> rolling \<Rightarrow> fl list \<Rightarrow> fl list" where
  "zscore rolling_mean rolling_std0 xs =
     series_div (series_sub xs (rolling_mean window (window div 3) xs))
                (rolling_std0 window (window div 3) xs)"

fun add_z :: "rolling \<Rightarrow> rolling \<Rightarrow> string list \<Rightarrow> fl dataframe \<Rightarrow> fl dataframe" where
  "add_z rolling_mean rolling_std0 [] out = out"
| "add_z rolling_mean rolling_std0 (c # cs) out =
     add_z rolling_mean rolling_std0 cs
       (set_col out (z_name c) (zscore rolling_mean rolling_std0 (get_col out c)))"

text \<open>
  One of the three statements of the form
  \<^verbatim>\<open>if {a, b}.issubset(out.columns): out[name] = out[a] - out[b]\<close>.
\<close>

definition add_spread :: "string \<Rightarrow> string \<Rightarrow> string \<Rightarrow> fl dataframe \<Rightarrow> fl dataframe" where
  "add_spread name a b out =
     (if {a, b} \<subseteq> set (col_names out)
      then set_col out name (series_sub (get_col out a) (get_col out b))
      else out)"

definition add_derived :: "rolling \<Rightarrow> rolling \<Rightarrow> fl dataframe \<Rightarrow> fl dataframe" where
  "add_derived rolling_mean rolling_std0 df =
     (let out = df;
          out = add_spread ''HY_IG_SPREAD'' ''HY_OAS'' ''IG_OAS'' out;
          out = add_spread ''BAA_10Y_SPREAD'' ''BAA_YIELD'' ''DGS10'' out;
          out = add_spread ''TWOS_TENS'' ''DGS10'' ''DGS2'' out;
          cols_for_z = filter (\<lambda>c. c \<in> set (col_names out)) z_whitelist
      in add_z rolling_mean rolling_std0 cols_for_z out)"

section \<open>charts.py: recession\_spans\<close>








section \<open>charts.py: build\_current\_table\<close>

text \<open>\<^verbatim>\<open>df.index.max()\<close>: the latest date of the index, NaT when it holds no date.\<close>

fun days :: "timestamp list \<Rightarrow> int list" where
  "days [] = []"
| "days (Ts d # ts) = d # days ts"
| "days (NaT # ts) = days ts"

definition index_max :: "timestamp list \<Rightarrow> timestamp" where
  "index_max idx = (case days idx of [] \<Rightarrow> NaT | d # ds \<Rightarrow> Ts (fold max ds d))"

text \<open>
  \<^verbatim>\<open>end - pd.DateOffset(years=1)\<close>: the calendar arithmetic of pandas is the parameter
  \<open>year_before\<close>, on day numbers. NaT stays NaT.
\<close>

fun minus_year :: "(int \<Rightarrow> int) \<Rightarrow> timestamp \<Rightarrow> timestamp" where
  "minus_year year_before (Ts d) = Ts (year_before d)"
| "minus_year year_before NaT = NaT"

text \<open>\<^verbatim>\<open>df.index >= start\<close> on one label: a comparison with NaT is false.\<close>

fun ts_ge :: "timestamp \<Rightarrow> timestamp \<Rightarrow> bool" where
  "ts_ge (Ts a) (Ts b) = (a \<ge> b)"
| "ts_ge _ _ = False"

text \<open>\<^verbatim>\<open>df.loc[df.index >= start]\<close>\<close>

definition rows_from :: "timestamp \<Rightarrow> 'a dataframe \<Rightarrow> 'a dataframe" where
  "rows_from start df =
     \<lparr>df_index = filter (\<lambda>d. ts_ge d start) (df_index df),
      df_cols = map (\<lambda>(n, c). (n, map snd (filter (\<lambda>(d, v). ts_ge d start)
                                                  (zip (df_index df) c))))
                    (df_cols df)\<rparr>"

text \<open>The order of floats; NaN compares false with everything.\<close>

fun fl_le :: "fl \<Rightarrow> fl \<Rightarrow> bool" where
  "fl_le NaN _ = False"
| "fl_le _ NaN = False"
| "fl_le NInf _ = True"
| "fl_le _ PInf = True"
| "fl_le (Fin a) (Fin b) = (a \<le> b)"
| "fl_le _ _ = False"

text \<open>\<^verbatim>\<open>Series.max()\<close> and \<^verbatim>\<open>Series.min()\<close> skip NaN and give NaN when nothing is left.\<close>

definition series_max :: "fl list \<Rightarrow> fl" where
  "series_max vs =
     (case filter (\<lambda>v. v \<noteq> NaN) vs of
        [] \<Rightarrow> NaN
      | v # rest \<Rightarrow> fold (\<lambda>x acc. if fl_le acc x then x else acc) rest v)"

definition series_min :: "fl list \<Rightarrow> fl" where
  "series_min vs =
     (case filter (\<lambda>v. v \<noteq> NaN) vs of
        [] \<Rightarrow> NaN
      | v # rest \<Rightarrow> fold (\<lambda>x acc. if fl_le x acc then x else acc) rest v)"

text \<open>
  \<^verbatim>\<open>round(x, 2)\<close> of a float: numpy multiplies by 100, rounds to an integer and
  divides by 100, all in float arithmetic, so that the result at a value next to a tie
  depends on the rounding of the product (1.015 gives 1.01). It is not modelled: the
  rounding of a finite value is the parameter \<open>round_2dp\<close>. Infinities are returned as
  they are.
\<close>

fun round2 :: "(real \<Rightarrow> real) \<Rightarrow> fl \<Rightarrow> fl" where
  "round2 round_2dp (Fin x) = Fin (round_2dp x)"
| "round2 round_2dp v = v"

text \<open>\<^verbatim>\<open>round(v, 2) if pd.notna(v) else None\<close>\<close>

definition rounded_or_none :: "(real \<Rightarrow> real) \<Rightarrow> fl \<Rightarrow> fl option" where
  "rounded_or_none round_2dp v = (if v \<noteq> NaN then Some (round2 round_2dp v) else None)"

record summary_row =
  Metric :: string
  Current :: "fl option"
  High_1y :: "fl option"
  Low_1y :: "fl option"

text \<open>The en dash of two labels, as its UTF-8 bytes.\<close>

definition en_dash :: string where
  "en_dash = [CHR 0xE2, CHR 0x80, CHR 0x93]"

definition metrics :: "(string \<times> string) list" where
  "metrics =
     [(''HY_OAS'', ''HY OAS''),
      (''IG_OAS'', ''IG OAS''),
      (''HY_IG_SPREAD'', ''HY '' @ en_dash @ '' IG''),
      (''BAA_10Y_SPREAD'', ''Baa '' @ en_dash @ '' 10y''),
      (''TWOS_TENS'', ''2s10s'')]"

text \<open>
  The loop over the metrics. \<^verbatim>\<open>df[col].iloc[-1]\<close> raises IndexError on a frame without
  rows, and the exception leaves the function.
\<close>

fun table_rows ::
  "(real \<Rightarrow> real) \<Rightarrow> fl dataframe \<Rightarrow> fl dataframe \<Rightarrow> (string \<times> string) list
     \<Rightarrow> error + summary_row list" where
  "table_rows round_2dp df sub [] = Inr []"
| "table_rows round_2dp df sub ((c, label) # ms) =
     (if c \<notin> set (col_names df) then table_rows round_2dp df sub ms
      else case get_col df c of
             [] \<Rightarrow> Inl IndexError
           | _ # _ \<Rightarrow>
               (let cur = last (get_col df c);
                    yr = get_col sub c;
                    hi = series_max yr;
                    lo = series_min yr;
                    row = \<lparr>Metric = label,
                           Current = rounded_or_none round_2dp cur,
                           High_1y = rounded_or_none round_2dp hi,
                           Low_1y = rounded_or_none round_2dp lo\<rparr>
                in case table_rows round_2dp df sub ms of
                     Inl e \<Rightarrow> Inl e
                   | Inr rows \<Rightarrow> Inr (row # rows)))"

definition build_current_table ::
  "(real \<Rightarrow> real) \<Rightarrow> (int \<Rightarrow> int) \<Rightarrow> fl dataframe \<Rightarrow> error + summary_row list" where
  "build_current_table round_2dp year_before df =
     (let end = index_max (df_index df);
          one_year_ago = minus_year year_before end;
          sub = rows_from one_year_ago df
      in table_rows round_2dp df sub metrics)"

section \<open>Example inputs\<close>

text \<open>
  Parsers and raw files for the examples: the date parser reads two ISO dates (as days
  since 1970-01-01) whatever the other cells of the column are, the number parser two
  numbers, and both reject every other cell. In \<open>example_read\<close> the file of series
  \<open>DGS10\<close> has three rows, one with a date that does not parse and one with the
  placeholder \<open>.\<close> for a missing value; no other series has a file.
\<close>

definition example_to_datetime :: "string list \<Rightarrow> string \<Rightarrow> timestamp" where
  "example_to_datetime cells s =
     (if s = ''2024-01-02'' then Ts 19724 else if s = ''2024-01-03'' then Ts 19725 else NaT)"

definition example_to_numeric :: "string \<Rightarrow> fl" where
  "example_to_numeric s =
     (if s = ''4.5'' then Fin (9 / 2) else if s = ''4.25'' then Fin (17 / 4) else NaN)"

definition example_csv :: raw_table where
  "example_csv =
     \<lparr>first_column = (''observation_date'', [''2024-01-03'', ''n/a'', ''2024-01-02'']),
      more_columns = [(''DGS10'', [''4.5'', ''4.25'', ''.''])]\<rparr>"

definition example_read :: "string \<Rightarrow> raw_table option" where
  "example_read s = (if s = ''DGS10'' then Some example_csv else None)"






text \<open>
  \<^verbatim>\<open>round(x, 2)\<close> on the values of the examples: 1.234 gives 1.23, and the values
  without a third decimal (1, 3, 5, 7) are returned as they are. No example rounds
  another value.
\<close>

definition example_round :: "real \<Rightarrow> real" where
  "example_round x = (if x = 617 / 500 then 123 / 100 else x)"

section \<open>Intervals of the recession indicator\<close>















section \<open>The merged panel\<close>

lemma days_conv: "days idx = map day_of (filter (\<lambda>d. d \<noteq> NaT) idx)"
  by (induction idx rule: days.induct) auto

lemma set_days: "set (days idx) = {d. Ts d \<in> set idx}"
  by (induction idx rule: days.induct) auto

lemma distinct_days: "distinct idx \<Longrightarrow> distinct (days idx)"
  by (induction idx rule: days.induct) (auto simp: set_days)

lemma map_sort_key: "map f (sort_key f xs) = sort (map f xs)"
  by (rule sym, rule properties_for_sort) (simp_all add: sorted_sort_key)

lemma mset_filter_split: "mset (filter P xs) + mset (filter (\<lambda>x. \<not> P x) xs) = mset xs"
  by (induction xs) auto

lemma mset_argsort: "mset (argsort idx) = mset [0..<length idx]"
proof -
  have "mset (argsort idx) =
      mset (filter (\<lambda>i. idx ! i \<noteq> NaT) [0..<length idx])
        + mset (filter (\<lambda>i. \<not> idx ! i \<noteq> NaT) [0..<length idx])"
    unfolding argsort_def Let_def by (simp only: mset_append mset_sort not_not)
  then show ?thesis by (simp only: mset_filter_split)
qed

lemma set_argsort: "set (argsort idx) = {0..<length idx}"
  using mset_argsort[of idx, THEN arg_cong[where f=set_mset]] by simp

lemma filter_nth_pos: "map (\<lambda>i. xs ! i) (filter (\<lambda>i. P (xs ! i)) [0..<length xs]) = filter P xs"
proof -
  have "map (\<lambda>i. xs ! i) (filter (P \<circ> (\<lambda>i. xs ! i)) [0..<length xs]) = filter P (map (\<lambda>i. xs ! i) [0..<length xs])"
    by (simp only: filter_map)
  then show ?thesis by (simp add: map_nth comp_def)
qed

lemma sorted_labels:
  "take_rows (argsort idx) idx = map Ts (sort (days idx)) @ filter (\<lambda>d. d = NaT) idx"
proof -
  let ?pos = "filter (\<lambda>i. idx ! i \<noteq> NaT) [0..<length idx]"
  let ?key = "\<lambda>i. day_of (idx ! i)"
  have ts: "idx ! i = Ts (day_of (idx ! i))" if "i \<in> set ?pos" for i
    using that by (cases "idx ! i") auto
  have "map (\<lambda>i. idx ! i) (sort_key ?key ?pos) = map (Ts \<circ> ?key) (sort_key ?key ?pos)"
    by (rule map_cong) (use ts in auto)
  also have "\<dots> = map Ts (sort (map ?key ?pos))"
    by (simp add: map_sort_key flip: map_map)
  also have "map ?key ?pos = map day_of (map (\<lambda>i. idx ! i) ?pos)" by simp
  also have "\<dots> = days idx"
    using filter_nth_pos[of idx "\<lambda>d. d \<noteq> NaT"] by (simp add: days_conv)
  finally have a: "map (\<lambda>i. idx ! i) (sort_key ?key ?pos) = map Ts (sort (days idx))" .
  have b: "map (\<lambda>i. idx ! i) (filter (\<lambda>i. idx ! i = NaT) [0..<length idx]) = filter (\<lambda>d. d = NaT) idx"
    using filter_nth_pos[of idx "\<lambda>d. d = NaT"] by simp
  show ?thesis unfolding take_rows_def argsort_def Let_def using a b by simp
qed

lemma take_rows_map:
  "\<forall>i \<in> set perm. i < length xs \<Longrightarrow> take_rows perm (map g xs) = map g (take_rows perm xs)"
  by (simp add: take_rows_def)

lemma ffill_from_nth:
  "t < length xs \<Longrightarrow>
   (\<exists>j \<le> t. xs ! j \<noteq> NaN \<and> ffill_from prev xs ! t = xs ! j
       \<and> (\<forall>k. j < k \<and> k \<le> t \<longrightarrow> xs ! k = NaN))
   \<or> ((\<forall>k \<le> t. xs ! k = NaN) \<and> ffill_from prev xs ! t = prev)"
proof (induction xs arbitrary: prev t)
  case Nil
  then show ?case by simp
next
  case (Cons x xs)
  show ?case
  proof (cases t)
    case 0
    then show ?thesis by (cases "x = NaN") auto
  next
    case (Suc t')
    with Cons.prems have t': "t' < length xs" by simp
    let ?p = "if x = NaN then prev else x"
    have step: "ffill_from prev (x # xs) ! t = ffill_from ?p xs ! t'"
      using Suc by simp
    from Cons.IH[OF t', of ?p]
    consider (found) j where "j \<le> t'" "xs ! j \<noteq> NaN" "ffill_from ?p xs ! t' = xs ! j"
        "\<forall>k. j < k \<and> k \<le> t' \<longrightarrow> xs ! k = NaN"
      | (none) "\<forall>k \<le> t'. xs ! k = NaN" "ffill_from ?p xs ! t' = ?p"
      by blast
    then show ?thesis
    proof cases
      case found
      have "\<forall>k. Suc j < k \<and> k \<le> t \<longrightarrow> (x # xs) ! k = NaN"
      proof (intro allI impI)
        fix k assume k: "Suc j < k \<and> k \<le> t"
        then obtain k' where k': "k = Suc k'" by (cases k) auto
        with k Suc found(4) show "(x # xs) ! k = NaN" by simp
      qed
      with found Suc step have
        "Suc j \<le> t \<and> (x # xs) ! Suc j \<noteq> NaN \<and> ffill_from prev (x # xs) ! t = (x # xs) ! Suc j
          \<and> (\<forall>k. Suc j < k \<and> k \<le> t \<longrightarrow> (x # xs) ! k = NaN)"
        by simp
      then show ?thesis by blast
    next
      case none
      have tail: "\<forall>k. 0 < k \<and> k \<le> t \<longrightarrow> (x # xs) ! k = NaN"
      proof (intro allI impI)
        fix k assume k: "0 < k \<and> k \<le> t"
        then obtain k' where k': "k = Suc k'" by (cases k) auto
        with k Suc none(1) show "(x # xs) ! k = NaN" by simp
      qed
      show ?thesis
      proof (cases "x = NaN")
        case True
        have "\<forall>k \<le> t. (x # xs) ! k = NaN"
        proof (intro allI impI)
          fix k assume "k \<le> t"
          with tail True show "(x # xs) ! k = NaN" by (cases k) auto
        qed
        moreover have "ffill_from prev (x # xs) ! t = prev"
          using step none(2) True by simp
        ultimately show ?thesis by blast
      next
        case False
        have "0 \<le> t \<and> (x # xs) ! 0 \<noteq> NaN \<and> ffill_from prev (x # xs) ! t = (x # xs) ! 0
            \<and> (\<forall>k. 0 < k \<and> k \<le> t \<longrightarrow> (x # xs) ! k = NaN)"
          using step none(2) False tail by simp
        then show ?thesis by blast
      qed
    qed
  qed
qed

lemma merge_frames_eq:
  assumes ne: "frames \<noteq> []" and dist: "\<forall>f \<in> set frames. distinct (df_index f)"
  shows "merge_frames frames =
     Inr \<lparr>df_index = take_rows (argsort (union_indexes (map df_index frames)))
                        (union_indexes (map df_index frames)),
          df_cols = concat (map (\<lambda>f. map (\<lambda>(n, c). (n, ffill_from NaN
                      (reindex_col (df_index f) c
                         (take_rows (argsort (union_indexes (map df_index frames)))
                            (union_indexes (map df_index frames))))))
                      (df_cols f)) frames)\<rparr>"
proof -
  let ?U = "union_indexes (map df_index frames)"
  let ?perm = "argsort ?U"
  have perm: "\<forall>i \<in> set ?perm. i < length ?U" by (simp add: set_argsort)
  have tr: "take_rows ?perm (reindex_col idx c ?U) = reindex_col idx c (take_rows ?perm ?U)" for idx c
    unfolding reindex_col_def by (rule take_rows_map[OF perm])
  have c: "concat_axis1 frames = Inr \<lparr>df_index = ?U,
        df_cols = concat (map (\<lambda>f. map (\<lambda>(n, c). (n, reindex_col (df_index f) c ?U))
                                           (df_cols f)) frames)\<rparr>"
    using ne dist by (simp add: concat_axis1_def Let_def)
  show ?thesis
    unfolding merge_frames_def c using ne
    by (simp add: sort_index_def ffill_def Let_def map_concat comp_def tr split_def)
qed

lemma set_union_indexes: "set (union_indexes idxs) = (\<Union>i \<in> set idxs. set i)"
  by (simp add: union_indexes_def)

lemma distinct_union_indexes: "distinct (union_indexes idxs)"
  by (simp add: union_indexes_def)

lemma filter_eq_distinct:
  "distinct xs \<Longrightarrow> filter (\<lambda>d. d = a) xs = (if a \<in> set xs then [a] else [])"
  by (induction xs) auto

lemma sort_distinct_sorted_list: "distinct xs \<Longrightarrow> sort xs = sorted_list_of_set (set xs)"
  by (simp add: sorted_list_of_set_sort_remdups distinct_remdups_id)

text \<open>The index of the merged panel: the dates of all sources, ascending, then NaT if a source has it.\<close>

lemma merged_labels:
  "take_rows (argsort (union_indexes idxs)) (union_indexes idxs) =
     map Ts (sorted_list_of_set {d. \<exists>i \<in> set idxs. Ts d \<in> set i})
       @ (if \<exists>i \<in> set idxs. NaT \<in> set i then [NaT] else [])"
proof -
  let ?U = "union_indexes idxs"
  have d: "distinct (days ?U)" by (rule distinct_days[OF distinct_union_indexes])
  have s: "set (days ?U) = {d. \<exists>i \<in> set idxs. Ts d \<in> set i}"
    by (simp add: set_days set_union_indexes)
  have "sort (days ?U) = sorted_list_of_set {d. \<exists>i \<in> set idxs. Ts d \<in> set i}"
    using sort_distinct_sorted_list[OF d] s by simp
  moreover have "filter (\<lambda>d. d = NaT) ?U = (if \<exists>i \<in> set idxs. NaT \<in> set i then [NaT] else [])"
    using filter_eq_distinct[OF distinct_union_indexes, of NaT idxs] by (simp add: set_union_indexes)
  ultimately show ?thesis by (simp only: sorted_labels)
qed

lemma strict_sorted_nth_le:
  assumes "sorted_wrt (<) (ds :: int list)" "i < length ds" "j < length ds"
  shows "ds ! i \<le> ds ! j \<longleftrightarrow> i \<le> j"
proof
  assume le: "ds ! i \<le> ds ! j"
  show "i \<le> j"
  proof (rule ccontr)
    assume "\<not> i \<le> j"
    then have "j < i" by simp
    with assms have "ds ! j < ds ! i" by (simp add: sorted_wrt_nth_less)
    with le show False by simp
  qed
next
  assume "i \<le> j"
  show "ds ! i \<le> ds ! j"
  proof (cases "i = j")
    case True then show ?thesis by simp
  next
    case False
    with \<open>i \<le> j\<close> have "i < j" by simp
    with assms have "ds ! i < ds ! j" by (simp add: sorted_wrt_nth_less)
    then show ?thesis by simp
  qed
qed

lemma strict_sorted_nth_less:
  assumes "sorted_wrt (<) (ds :: int list)" "i < length ds" "j < length ds"
  shows "ds ! i < ds ! j \<longleftrightarrow> i < j"
  using strict_sorted_nth_le[OF assms(1) assms(3) assms(2)] by auto

lemma merged_col:
  assumes ne: "frames \<noteq> []" and dist: "\<forall>f \<in> set frames. distinct (df_index f)"
    and names: "distinct (concat (map col_names frames))"
    and f: "f \<in> set frames" and c: "(n, c) \<in> set (df_cols f)"
    and m: "merge_frames frames = Inr p"
  shows "get_col p n = ffill_from NaN (reindex_col (df_index f) c (df_index p))"
proof -
  let ?S = "take_rows (argsort (union_indexes (map df_index frames)))
              (union_indexes (map df_index frames))"
  let ?F = "\<lambda>f. map (\<lambda>(n, c). (n, ffill_from NaN (reindex_col (df_index f) c ?S))) (df_cols f)"
  from merge_frames_eq[OF ne dist] m
  have p: "p = \<lparr>df_index = ?S, df_cols = concat (map ?F frames)\<rparr>" by simp
  have fst: "map fst (concat (map ?F frames)) = concat (map col_names frames)"
    by (simp add: map_concat comp_def col_names_def[abs_def] split_def)
  have mem: "(n, ffill_from NaN (reindex_col (df_index f) c ?S)) \<in> set (concat (map ?F frames))"
    using f c by (auto intro!: bexI[of _ f] simp: image_iff intro: bexI[of _ "(n, c)"])
  have "map_of (concat (map ?F frames)) n = Some (ffill_from NaN (reindex_col (df_index f) c ?S))"
    by (rule map_of_is_SomeI) (use names fst mem in simp_all)
  then show ?thesis by (simp add: p get_col_def)
qed

lemma merged_index:
  assumes ne: "frames \<noteq> []" and dist: "\<forall>f \<in> set frames. distinct (df_index f)"
    and m: "merge_frames frames = Inr p"
  shows "df_index p =
     map Ts (sorted_list_of_set {d. \<exists>f \<in> set frames. Ts d \<in> set (df_index f)})
       @ (if \<exists>f \<in> set frames. NaT \<in> set (df_index f) then [NaT] else [])"
proof -
  from merge_frames_eq[OF ne dist] m
  have "df_index p = take_rows (argsort (union_indexes (map df_index frames)))
                        (union_indexes (map df_index frames))" by auto
  then show ?thesis by (simp add: merged_labels)
qed

lemma finite_dates: "finite {d. \<exists>f \<in> set frames. Ts d \<in> set (df_index f)}"
proof -
  have "{d. \<exists>f \<in> set frames. Ts d \<in> set (df_index f)}
      = (\<Union>f \<in> set frames. set (days (df_index f)))"
    by (auto simp: set_days)
  then show ?thesis by simp
qed

lemma merged_cell:
  assumes ne: "frames \<noteq> []" and dist: "\<forall>f \<in> set frames. distinct (df_index f)"
    and names: "distinct (concat (map col_names frames))"
    and f: "f \<in> set frames" and c: "(n, c) \<in> set (df_cols f)"
    and m: "merge_frames frames = Inr p"
    and t: "t < length (df_index p)" and d: "df_index p ! t = Ts d"
  shows "(\<exists>d' \<le> d. map_of (zip (df_index f) c) (Ts d') = Some (get_col p n ! t)
            \<and> get_col p n ! t \<noteq> NaN
            \<and> (\<forall>d'' x. d' < d'' \<and> d'' \<le> d \<and> map_of (zip (df_index f) c) (Ts d'') = Some x
                   \<longrightarrow> x = NaN))
       \<or> (get_col p n ! t = NaN
            \<and> (\<forall>d' x. d' \<le> d \<and> map_of (zip (df_index f) c) (Ts d') = Some x \<longrightarrow> x = NaN))"
proof -
  let ?obs = "map_of (zip (df_index f) c)"
  let ?g = "\<lambda>d. case ?obs d of Some v \<Rightarrow> v | None \<Rightarrow> NaN"
  let ?D = "{d. \<exists>f \<in> set frames. Ts d \<in> set (df_index f)}"
  let ?ds = "sorted_list_of_set ?D"
  let ?xs = "reindex_col (df_index f) c (df_index p)"
  have idx: "df_index p = map Ts ?ds @ (if \<exists>f \<in> set frames. NaT \<in> set (df_index f) then [NaT] else [])"
    by (rule merged_index[OF ne dist m])
  have fin: "finite ?D" by (rule finite_dates)
  have ss: "sorted_wrt (<) ?ds" by simp
  have setds: "set ?ds = ?D" using fin by simp
  have tl: "t < length ?ds"
  proof (rule ccontr)
    assume "\<not> t < length ?ds"
    with t idx have "df_index p ! t = NaT"
      by (auto simp: nth_append split: if_splits)
    with d show False by simp
  qed
  have nth_p: "df_index p ! k = Ts (?ds ! k)" if "k < length ?ds" for k
    using that idx by (simp add: nth_append)
  have dt: "?ds ! t = d" using nth_p[OF tl] d by simp
  have lenxs: "length ?xs = length (df_index p)" by (simp add: reindex_col_def)
  have xs_nth: "?xs ! k = ?g (Ts (?ds ! k))" if "k \<le> t" for k
  proof -
    from that tl have kl: "k < length ?ds" by simp
    with t that have "k < length (df_index p)" by simp
    then show ?thesis using nth_p[OF kl] by (simp add: reindex_col_def)
  qed
  have col: "get_col p n = ffill_from NaN ?xs"
    by (rule merged_col[OF ne dist names f c m])
  have pos: "\<exists>k < length ?ds. ?ds ! k = d''" if "?obs (Ts d'') = Some x" for d'' x
  proof -
    from that have "(Ts d'', x) \<in> set (zip (df_index f) c)" by (rule map_of_SomeD)
    then have "Ts d'' \<in> set (df_index f)" by (rule set_zip_leftD)
    with f have "d'' \<in> ?D" by blast
    with setds have "d'' \<in> set ?ds" by simp
    then show ?thesis by (simp add: in_set_conv_nth)
  qed
  from t lenxs have "t < length ?xs" by simp
  from ffill_from_nth[OF this, of NaN]
  consider (found) j where "j \<le> t" "?xs ! j \<noteq> NaN" "ffill_from NaN ?xs ! t = ?xs ! j"
      "\<forall>k. j < k \<and> k \<le> t \<longrightarrow> ?xs ! k = NaN"
    | (none) "\<forall>k \<le> t. ?xs ! k = NaN" "ffill_from NaN ?xs ! t = NaN"
    by blast
  then show ?thesis
  proof cases
    case found
    let ?d' = "?ds ! j"
    from found(1) tl have jl: "j < length ?ds" by simp
    have le: "?d' \<le> d" using strict_sorted_nth_le[OF ss jl tl] found(1) dt by simp
    have gj: "?g (Ts ?d') \<noteq> NaN" using found(2) xs_nth[OF found(1)] by simp
    then obtain v where v: "?obs (Ts ?d') = Some v" "v \<noteq> NaN"
      by (cases "?obs (Ts ?d')") auto
    have val: "get_col p n ! t = v"
      using col found(3) xs_nth[OF found(1)] v by simp
    have later: "x = NaN" if a: "?d' < d''" "d'' \<le> d" "?obs (Ts d'') = Some x" for d'' x
    proof -
      from pos[OF a(3)] obtain k where k: "k < length ?ds" "?ds ! k = d''" by blast
      have "j < k" using strict_sorted_nth_less[OF ss jl k(1)] a(1) k(2) by simp
      moreover have "k \<le> t" using strict_sorted_nth_le[OF ss k(1) tl] a(2) k(2) dt by simp
      ultimately have "?xs ! k = NaN" using found(4) by blast
      with xs_nth[OF \<open>k \<le> t\<close>] k(2) a(3) show ?thesis by simp
    qed
    have "?d' \<le> d \<and> ?obs (Ts ?d') = Some (get_col p n ! t) \<and> get_col p n ! t \<noteq> NaN
        \<and> (\<forall>d'' x. ?d' < d'' \<and> d'' \<le> d \<and> ?obs (Ts d'') = Some x \<longrightarrow> x = NaN)"
      using le v val later by blast
    then show ?thesis by blast
  next
    case none
    have val: "get_col p n ! t = NaN" using col none(2) by simp
    have "x = NaN" if a: "d' \<le> d" "?obs (Ts d') = Some x" for d' x
    proof -
      from pos[OF a(2)] obtain k where k: "k < length ?ds" "?ds ! k = d'" by blast
      have "k \<le> t" using strict_sorted_nth_le[OF ss k(1) tl] a(1) k(2) dt by simp
      with none(1) have "?xs ! k = NaN" by blast
      with xs_nth[OF \<open>k \<le> t\<close>] k(2) a(2) show ?thesis by simp
    qed
    with val show ?thesis by blast
  qed
qed

lemma upt2: "[0..<2] = [0, 1]" by (simp add: upt_rec)

lemma merge_frames_ok:
  assumes ne: "frames \<noteq> []" and dist: "\<forall>f \<in> set frames. distinct (df_index f)"
  shows "\<exists>p. merge_frames frames = Inr p"
  using merge_frames_eq[OF ne dist] by simp

text \<open>
  Claim C2 (date index of the Panel). For a non-empty list of sources whose index labels
  do not repeat within a source, the merge returns a Panel; the dates of its index are
  strictly ascending, without duplicates, and are the sorted union of the dates of all
  sources. (A NaT label, if a source has one, is the last label of the index; sources
  whose labels are all dates give an index of dates only.)
\<close>

theorem panel_index_sorted_union:
  assumes "frames \<noteq> []" and "\<forall>f \<in> set frames. distinct (df_index f)"
  shows "\<exists>p. merge_frames frames = Inr p
      \<and> df_index p =
          map Ts (sorted_list_of_set {d. \<exists>f \<in> set frames. Ts d \<in> set (df_index f)})
            @ (if \<exists>f \<in> set frames. NaT \<in> set (df_index f) then [NaT] else [])
      \<and> sorted_wrt (<) (days (df_index p))
      \<and> distinct (df_index p)
      \<and> set (df_index p) = (\<Union>f \<in> set frames. set (df_index f))"
proof -
  let ?D = "{d. \<exists>f \<in> set frames. Ts d \<in> set (df_index f)}"
  from merge_frames_ok[OF assms] obtain p where m: "merge_frames frames = Inr p" by blast
  have idx: "df_index p = map Ts (sorted_list_of_set ?D)
       @ (if \<exists>f \<in> set frames. NaT \<in> set (df_index f) then [NaT] else [])"
    by (rule merged_index[OF assms m])
  have fin: "finite ?D" by (rule finite_dates)
  have dd: "days (map Ts ds @ (if b then [NaT] else [])) = ds" for ds b
    by (induction ds) auto
  have asc: "sorted_wrt (<) (days (df_index p))"
    unfolding idx dd by simp
  have dist: "distinct (df_index p)"
    unfolding idx by (auto simp: distinct_map inj_on_def)
  have "set (df_index p) = (\<Union>f \<in> set frames. set (df_index f))"
  proof (intro set_eqI iffI)
    fix x assume "x \<in> set (df_index p)"
    then show "x \<in> (\<Union>f \<in> set frames. set (df_index f))"
      unfolding idx using fin by (auto split: if_splits)
  next
    fix x assume x: "x \<in> (\<Union>f \<in> set frames. set (df_index f))"
    show "x \<in> set (df_index p)"
    proof (cases x)
      case NaT
      with x show ?thesis unfolding idx by auto
    next
      case (Ts d)
      with x have "d \<in> ?D" by auto
      with fin Ts show ?thesis unfolding idx by simp
    qed
  qed
  with m idx asc dist show ?thesis by blast
qed

theorem panel_index_sorted_union_witness:
  "\<exists>p. merge_frames [\<lparr>df_index = [Ts 3, Ts 1], df_cols = [(''BAA_YIELD'', [Fin 5, Fin 4])]\<rparr>,
                      \<lparr>df_index = [Ts 2, Ts 3], df_cols = [(''DGS10'', [Fin 1, Fin 2])]\<rparr>] = Inr p
      \<and> df_index p = [Ts 1, Ts 2, Ts 3]"
proof -
  let ?frames = "[\<lparr>df_index = [Ts 3, Ts 1], df_cols = [(''BAA_YIELD'', [Fin 5, Fin 4])]\<rparr>,
                  \<lparr>df_index = [Ts 2, Ts 3], df_cols = [(''DGS10'', [Fin 1, Fin 2])]\<rparr>]"
  have ne: "?frames \<noteq> []" by simp
  have dist: "\<forall>f \<in> set ?frames. distinct (df_index f)" by simp
  have D: "{d. \<exists>f \<in> set ?frames. Ts d \<in> set (df_index f)} = {1, 2, 3}" by auto
  from panel_index_sorted_union[OF ne dist] obtain p where
    p: "merge_frames ?frames = Inr p"
    "df_index p = map Ts (sorted_list_of_set {d. \<exists>f \<in> set ?frames. Ts d \<in> set (df_index f)})
            @ (if \<exists>f \<in> set ?frames. NaT \<in> set (df_index f) then [NaT] else [])"
    by blast
  from p(2) have "df_index p = [Ts 1, Ts 2, Ts 3]" unfolding D by simp
  with p(1) show ?thesis by blast
qed

text \<open>
  Claim C1 (forward-fill invariant). A column of the Panel comes from the column \<open>c\<close>
  of a source \<open>f\<close>. At every date \<open>d\<close> of the Panel's index (so also at every date
  where \<open>c\<close> has no direct observation) the Panel's value is the non-missing value that
  \<open>c\<close> observes at the most recent date \<open>d' \<le> d\<close> having one: every observation of
  \<open>c\<close> between \<open>d'\<close> and \<open>d\<close> is missing. When \<open>c\<close> has no non-missing observation at
  or before \<open>d\<close>, the Panel's value is missing.
\<close>

theorem forward_fill_invariant:
  assumes "frames \<noteq> []" and "\<forall>f \<in> set frames. distinct (df_index f)"
    and "distinct (concat (map col_names frames))"
    and "f \<in> set frames" and "(n, c) \<in> set (df_cols f)"
    and "merge_frames frames = Inr p"
    and "t < length (df_index p)" and "df_index p ! t = Ts d"
  shows "(\<exists>d' \<le> d. map_of (zip (df_index f) c) (Ts d') = Some (get_col p n ! t)
            \<and> get_col p n ! t \<noteq> NaN
            \<and> (\<forall>d'' x. d' < d'' \<and> d'' \<le> d \<and> map_of (zip (df_index f) c) (Ts d'') = Some x
                   \<longrightarrow> x = NaN))
       \<or> (get_col p n ! t = NaN
            \<and> (\<forall>d' x. d' \<le> d \<and> map_of (zip (df_index f) c) (Ts d') = Some x \<longrightarrow> x = NaN))"
  using assms by (rule merged_cell)

lemma example_merge:
  "merge_frames [\<lparr>df_index = [Ts 1], df_cols = [(''BAA_YIELD'', [Fin 5])]\<rparr>,
                 \<lparr>df_index = [Ts 1, Ts 2], df_cols = [(''DGS10'', [Fin 1, Fin 2])]\<rparr>]
   = Inr \<lparr>df_index = [Ts 1, Ts 2],
          df_cols = [(''BAA_YIELD'', [Fin 5, Fin 5]), (''DGS10'', [Fin 1, Fin 2])]\<rparr>"
  by (simp add: merge_frames_def concat_axis1_def union_indexes_def reindex_col_def
      sort_index_def argsort_def take_rows_def ffill_def upt2)

theorem forward_fill_invariant_witness:
  "\<exists>d' \<le> 2. map_of (zip [Ts 1] [Fin 5]) (Ts d') = Some (Fin 5)
      \<and> (\<forall>d'' x. d' < d'' \<and> d'' \<le> 2 \<and> map_of (zip [Ts 1] [Fin 5]) (Ts d'') = Some x \<longrightarrow> x = NaN)"
proof -
  let ?fA = "\<lparr>df_index = [Ts 1], df_cols = [(''BAA_YIELD'', [Fin 5])]\<rparr>"
  let ?fB = "\<lparr>df_index = [Ts 1, Ts 2], df_cols = [(''DGS10'', [Fin 1, Fin 2])]\<rparr>"
  let ?p = "\<lparr>df_index = [Ts 1, Ts 2],
          df_cols = [(''BAA_YIELD'', [Fin 5, Fin 5]), (''DGS10'', [Fin 1, Fin 2])]\<rparr>"
  have v: "get_col ?p ''BAA_YIELD'' ! 1 = Fin 5" by (simp add: get_col_def)
  have "(\<exists>d' \<le> 2. map_of (zip (df_index ?fA) [Fin 5]) (Ts d') = Some (get_col ?p ''BAA_YIELD'' ! 1)
            \<and> get_col ?p ''BAA_YIELD'' ! 1 \<noteq> NaN
            \<and> (\<forall>d'' x. d' < d'' \<and> d'' \<le> 2 \<and> map_of (zip (df_index ?fA) [Fin 5]) (Ts d'') = Some x
                   \<longrightarrow> x = NaN))
       \<or> (get_col ?p ''BAA_YIELD'' ! 1 = NaN
            \<and> (\<forall>d' x. d' \<le> 2 \<and> map_of (zip (df_index ?fA) [Fin 5]) (Ts d') = Some x \<longrightarrow> x = NaN))"
    by (rule forward_fill_invariant[of "[?fA, ?fB]" ?fA "''BAA_YIELD''" "[Fin 5]" ?p 1 2])
      (simp_all add: example_merge col_names_def)
  then show ?thesis unfolding v by simp
qed

text \<open>
  A column observed on day 1 only, merged with a column observed on days 1 and 2: on day 2
  the first column holds its value of day 1.
\<close>

theorem merge_extrapolates_counterexample:
  "merge_frames [\<lparr>df_index = [Ts 1], df_cols = [(''BAA_YIELD'', [Fin 5])]\<rparr>,
                 \<lparr>df_index = [Ts 1, Ts 2], df_cols = [(''DGS10'', [Fin 1, Fin 2])]\<rparr>]
     = Inr \<lparr>df_index = [Ts 1, Ts 2],
            df_cols = [(''BAA_YIELD'', [Fin 5, Fin 5]), (''DGS10'', [Fin 1, Fin 2])]\<rparr>
   \<and> get_col \<lparr>df_index = [Ts 1, Ts 2],
               df_cols = [(''BAA_YIELD'', [Fin 5, Fin 5]), (''DGS10'', [Fin 1, Fin 2])]\<rparr>
        ''BAA_YIELD'' ! 1 \<noteq> NaN"
  by (simp add: merge_frames_def concat_axis1_def union_indexes_def reindex_col_def
      sort_index_def argsort_def take_rows_def ffill_def upt2 get_col_def)

text \<open>
  Claim C5, as amended. No backward fill: at a date with no non-missing observation of
  the column at or before it, the Panel's value is missing. No interpolation: a value of
  the Panel that is not missing is an observation of the same column at the same or an
  earlier date. The merge does carry values forward past the last observation: at a
  date \<open>d\<close> of the Panel strictly after the date \<open>dl\<close> of the column's last non-missing
  observation, the Panel's value is the value observed at \<open>dl\<close>.
\<close>

theorem carried_forward_not_backward:
  assumes "frames \<noteq> []" and "\<forall>f \<in> set frames. distinct (df_index f)"
    and "distinct (concat (map col_names frames))"
    and "f \<in> set frames" and "(n, c) \<in> set (df_cols f)"
    and "merge_frames frames = Inr p"
    and "t < length (df_index p)" and "df_index p ! t = Ts d"
  shows "((\<forall>d' x. d' \<le> d \<and> map_of (zip (df_index f) c) (Ts d') = Some x \<longrightarrow> x = NaN)
            \<longrightarrow> get_col p n ! t = NaN)
       \<and> (get_col p n ! t = NaN
            \<or> (\<exists>d' \<le> d. map_of (zip (df_index f) c) (Ts d') = Some (get_col p n ! t)))
       \<and> (dl < d \<and> map_of (zip (df_index f) c) (Ts dl) = Some v \<and> v \<noteq> NaN
            \<and> (\<forall>d'' x. dl < d'' \<and> map_of (zip (df_index f) c) (Ts d'') = Some x \<longrightarrow> x = NaN)
            \<longrightarrow> get_col p n ! t = v)"
proof -
  let ?obs = "map_of (zip (df_index f) c)"
  let ?val = "get_col p n ! t"
  from merged_cell[OF assms]
  consider (found) d' where "d' \<le> d" "?obs (Ts d') = Some ?val" "?val \<noteq> NaN"
      "\<forall>d'' x. d' < d'' \<and> d'' \<le> d \<and> ?obs (Ts d'') = Some x \<longrightarrow> x = NaN"
    | (none) "?val = NaN" "\<forall>d' x. d' \<le> d \<and> ?obs (Ts d') = Some x \<longrightarrow> x = NaN"
    by blast
  then show ?thesis
  proof cases
    case found
    have a: "(\<forall>d' x. d' \<le> d \<and> ?obs (Ts d') = Some x \<longrightarrow> x = NaN) \<longrightarrow> ?val = NaN"
      using found(1,2,3) by blast
    have b: "?val = NaN \<or> (\<exists>d' \<le> d. ?obs (Ts d') = Some ?val)"
      using found(1,2) by blast
    have c: "?val = v" if h: "dl < d" "?obs (Ts dl) = Some v" "v \<noteq> NaN"
        "\<forall>d'' x. dl < d'' \<and> ?obs (Ts d'') = Some x \<longrightarrow> x = NaN"
    proof -
      have "\<not> d' < dl" using found(4) h(1,2,3) by force
      moreover have "\<not> dl < d'" using h(4) found(2,3) by blast
      ultimately have "d' = dl" by simp
      with found(2) h(2) show ?thesis by simp
    qed
    from a b c show ?thesis by blast
  next
    case none
    have c: "?val = v" if h: "dl < d" "?obs (Ts dl) = Some v" "v \<noteq> NaN" for dl v
    proof -
      from h(1) have "dl \<le> d" by simp
      with none(2) h(2) have "v = NaN" by blast
      with h(3) show ?thesis by simp
    qed
    from none(1) c show ?thesis by blast
  qed
qed

theorem carried_forward_not_backward_witness:
  "get_col \<lparr>df_index = [Ts 1, Ts 2],
            df_cols = [(''BAA_YIELD'', [Fin 5, Fin 5]), (''DGS10'', [Fin 1, Fin 2])]\<rparr>
     ''BAA_YIELD'' ! 1 = Fin 5
   \<and> get_col \<lparr>df_index = [Ts 1, Ts 2],
            df_cols = [(''BAA_YIELD'', [NaN, Fin 5]), (''DGS10'', [Fin 1, Fin 2])]\<rparr>
     ''BAA_YIELD'' ! 0 = NaN"
proof -
  let ?fA = "\<lparr>df_index = [Ts 1], df_cols = [(''BAA_YIELD'', [Fin 5])]\<rparr>"
  let ?fB = "\<lparr>df_index = [Ts 1, Ts 2], df_cols = [(''DGS10'', [Fin 1, Fin 2])]\<rparr>"
  let ?p = "\<lparr>df_index = [Ts 1, Ts 2],
          df_cols = [(''BAA_YIELD'', [Fin 5, Fin 5]), (''DGS10'', [Fin 1, Fin 2])]\<rparr>"
  let ?fC = "\<lparr>df_index = [Ts 2], df_cols = [(''BAA_YIELD'', [Fin 5])]\<rparr>"
  let ?q = "\<lparr>df_index = [Ts 1, Ts 2],
          df_cols = [(''BAA_YIELD'', [NaN, Fin 5]), (''DGS10'', [Fin 1, Fin 2])]\<rparr>"
  have mq: "merge_frames [?fC, ?fB] = Inr ?q"
    by (simp add: merge_frames_def concat_axis1_def union_indexes_def reindex_col_def
      sort_index_def argsort_def take_rows_def ffill_def upt2)
  have fwd: "get_col ?p ''BAA_YIELD'' ! 1 = Fin 5"
    using carried_forward_not_backward[of "[?fA, ?fB]" ?fA "''BAA_YIELD''" "[Fin 5]" ?p 1 2 1 "Fin 5"]
    by (simp add: example_merge col_names_def)
  have bwd: "get_col ?q ''BAA_YIELD'' ! 0 = NaN"
    using carried_forward_not_backward[of "[?fC, ?fB]" ?fC "''BAA_YIELD''" "[Fin 5]" ?q 0 1]
    by (simp add: mq col_names_def)
  from fwd bwd show ?thesis by simp
qed

section \<open>The order of the sources\<close>

lemma mset_concat_map_cong:
  assumes "mset xs = mset ys"
  shows "mset (concat (map g xs)) = mset (concat (map g ys))"
proof -
  have "mset (concat (map g zs)) = sum_mset (image_mset (\<lambda>z. mset (g z)) (mset zs))" for zs
    by (induction zs) auto
  with assms show ?thesis by simp
qed

lemma map_of_mset_cong:
  assumes cols: "mset xs = mset ys" and d: "distinct (map fst xs)"
  shows "map_of xs = map_of ys"
proof -
  have "mset (map fst ys) = mset (map fst xs)" using cols by (simp only: mset_map)
  then have d2: "distinct (map fst ys)" using d mset_eq_imp_distinct_iff by blast
  have "set xs = set ys" using cols by (rule mset_eq_setD)
  then show ?thesis using map_of_inject_set[OF d d2] by simp
qed

text \<open>The two ways in which \<^verbatim>\<open>merge_all\<close> gets a Panel from its frames.\<close>

lemma merge_frames_same_index:
  assumes ne: "frames \<noteq> []" and nd: "\<not> (\<forall>f \<in> set frames. distinct (df_index f))"
    and same: "\<forall>f \<in> set frames. df_index f = df_index (hd frames)"
  shows "merge_frames frames =
     Inr \<lparr>df_index = take_rows (argsort (df_index (hd frames))) (df_index (hd frames)),
          df_cols = concat (map (\<lambda>f. map (\<lambda>(n, c). (n, ffill_from NaN
                      (take_rows (argsort (df_index (hd frames))) c))) (df_cols f)) frames)\<rparr>"
proof -
  have c: "concat_axis1 frames =
      Inr \<lparr>df_index = df_index (hd frames), df_cols = concat (map df_cols frames)\<rparr>"
    unfolding concat_axis1_def
    by (subst if_not_P[OF ne], subst if_not_P[OF nd], subst if_P[OF same]) (rule refl)
  show ?thesis
    unfolding merge_frames_def c using ne
    by (simp add: sort_index_def ffill_def Let_def map_concat comp_def split_def)
qed

text \<open>Frames with different indexes, one of them with a repeated label.\<close>

lemma sort_mset_cong: "mset xs = mset ys \<Longrightarrow> sort xs = sort ys"
  by (rule properties_for_sort) simp_all

lemma filter_eq_replicate: "filter (\<lambda>d. d = a) xs = replicate (count_list xs a) a"
  by (induction xs) auto

lemma sorted_labels_mset:
  assumes "mset u = mset v"
  shows "take_rows (argsort u) u = take_rows (argsort v) v"
proof -
  have "mset (days u) = mset (days v)"
    unfolding days_conv using assms by (simp only: mset_map mset_filter)
  then have a: "sort (days u) = sort (days v)" by (rule sort_mset_cong)
  have "count (mset u) NaT = count (mset v) NaT" using assms by simp
  then have "count_list u NaT = count_list v NaT" by (simp only: count_mset)
  then have b: "filter (\<lambda>d. d = NaT) u = filter (\<lambda>d. d = NaT) v"
    by (simp only: filter_eq_replicate)
  show ?thesis unfolding sorted_labels a b ..
qed

lemma mset_take_argsort: "mset (take_rows (argsort u) u) = mset u"
proof -
  have "mset (take_rows (argsort u) u) = image_mset (\<lambda>i. u ! i) (mset (argsort u))"
    by (simp add: take_rows_def)
  also have "\<dots> = mset (map (\<lambda>i. u ! i) [0..<length u])"
    by (simp only: mset_argsort mset_map)
  finally show ?thesis by (simp only: map_nth)
qed

lemma count_list_replicate_eq: "count_list (replicate n l) x = (if x = l then n else 0)"
  by (induction n) auto

lemma count_list_concat_replicate:
  "distinct ls \<Longrightarrow>
     count_list (concat (map (\<lambda>l. replicate (g l) l) ls)) x = (if x \<in> set ls then g x else 0)"
  by (induction ls) (auto simp: count_list_replicate_eq)

lemma fold_max_set: "fold max xs (0::nat) = Max (insert 0 (set xs))"
  using Max.set_eq_fold[of 0 xs] by simp

lemma count_union_repeated:
  "count_list (union_repeated idxs) x =
     (if x \<in> (\<Union>i \<in> set idxs. set i) then Max (insert 0 ((\<lambda>i. count_list i x) ` set idxs)) else 0)"
proof -
  define u where "u = concat (map (\<lambda>l. replicate (fold max (map (\<lambda>i. count_list i l) idxs) 0) l)
                          (remdups (concat idxs)))"
  have "count_list (union_repeated idxs) x = count (mset (take_rows (argsort u) u)) x"
    by (simp add: union_repeated_def Let_def u_def count_mset)
  also have "\<dots> = count_list u x" by (simp only: mset_take_argsort count_mset)
  also have "\<dots> = (if x \<in> set (remdups (concat idxs))
                      then fold max (map (\<lambda>i. count_list i x) idxs) 0 else 0)"
    unfolding u_def by (rule count_list_concat_replicate) simp
  finally show ?thesis by (simp add: fold_max_set)
qed

lemma union_repeated_sorted:
  "take_rows (argsort (union_repeated idxs)) (union_repeated idxs) = union_repeated idxs"
proof -
  define u where "u = concat (map (\<lambda>l. replicate (fold max (map (\<lambda>i. count_list i l) idxs) 0) l)
                        (remdups (concat idxs)))"
  have "take_rows (argsort (take_rows (argsort u) u)) (take_rows (argsort u) u)
      = take_rows (argsort u) u"
    by (rule sorted_labels_mset) (rule mset_take_argsort)
  then show ?thesis by (simp add: union_repeated_def Let_def u_def)
qed

lemma union_repeated_cong:
  assumes "set idxs = set idxs'"
  shows "union_repeated idxs = union_repeated idxs'"
proof -
  have "mset (union_repeated idxs) = mset (union_repeated idxs')"
    by (rule multiset_eqI) (simp add: count_mset count_union_repeated assms)
  from sorted_labels_mset[OF this] show ?thesis by (simp only: union_repeated_sorted)
qed

lemma union_repeated_label:
  assumes "i \<in> set idxs" and "l \<in> set i"
  shows "l \<in> set (union_repeated idxs)"
proof -
  have fin: "finite (insert 0 ((\<lambda>i. count_list i l) ` set idxs))" by simp
  have "count_list i l \<in> insert 0 ((\<lambda>i. count_list i l) ` set idxs)" using assms(1) by simp
  from Max_ge[OF fin this] have "count_list i l \<le> Max (insert 0 ((\<lambda>i. count_list i l) ` set idxs))" .
  moreover have "count_list i l \<noteq> 0" using assms(2) by (simp add: count_list_0_iff)
  ultimately have pos: "Max (insert 0 ((\<lambda>i. count_list i l) ` set idxs)) \<noteq> 0" by linarith
  have "l \<in> (\<Union>i \<in> set idxs. set i)" using assms by blast
  then have "count_list (union_repeated idxs) l = Max (insert 0 ((\<lambda>i. count_list i l) ` set idxs))"
    by (simp only: count_union_repeated if_True)
  with pos have "count_list (union_repeated idxs) l \<noteq> 0" by simp
  then show ?thesis by (simp only: count_list_0_iff not_not)
qed

lemma merge_frames_repeated:
  assumes ne: "frames \<noteq> []" and nd: "\<not> (\<forall>f \<in> set frames. distinct (df_index f))"
    and diff: "\<not> (\<forall>f \<in> set frames. df_index f = df_index (hd frames))"
    and ok: "\<forall>f \<in> set frames. df_index f = union_repeated (map df_index frames)
                \<or> distinct (df_index f)"
  shows "merge_frames frames =
     Inr \<lparr>df_index = union_repeated (map df_index frames),
          df_cols = concat (map (\<lambda>f. map (\<lambda>(n, c). (n, ffill_from NaN
                      (take_rows (argsort (union_repeated (map df_index frames)))
                         (if df_index f = union_repeated (map df_index frames) then c
                          else reindex_col (df_index f) c (union_repeated (map df_index frames))))))
                      (df_cols f)) frames)\<rparr>"
proof -
  have c: "concat_axis1 frames =
      Inr \<lparr>df_index = union_repeated (map df_index frames),
           df_cols = concat (map (\<lambda>f. map (\<lambda>(n, c).
                        (n, if df_index f = union_repeated (map df_index frames) then c
                            else reindex_col (df_index f) c (union_repeated (map df_index frames))))
                      (df_cols f)) frames)\<rparr>"
    unfolding concat_axis1_def Let_def
    by (subst if_not_P[OF ne], subst if_not_P[OF nd], subst if_not_P[OF diff], subst if_P[OF ok])
       (rule refl)
  show ?thesis
    unfolding merge_frames_def c using ne
    by (simp add: sort_index_def ffill_def Let_def map_concat comp_def split_def
          union_repeated_sorted)
qed

lemma merge_frames_invalid:
  assumes ne: "frames \<noteq> []" and nd: "\<not> (\<forall>f \<in> set frames. distinct (df_index f))"
    and diff: "\<not> (\<forall>f \<in> set frames. df_index f = df_index (hd frames))"
    and bad: "\<not> (\<forall>f \<in> set frames. df_index f = union_repeated (map df_index frames)
                \<or> distinct (df_index f))"
  shows "merge_frames frames = Inl InvalidIndexError"
proof -
  have "concat_axis1 frames = Inl InvalidIndexError"
    unfolding concat_axis1_def Let_def
    by (subst if_not_P[OF ne], subst if_not_P[OF nd], subst if_not_P[OF diff],
        subst if_not_P[OF bad]) (rule refl)
  then show ?thesis using ne by (simp add: merge_frames_def)
qed

text \<open>A frame with a repeated label, and a label of another frame that it lacks.\<close>

lemma merge_frames_missing_label:
  assumes g: "g \<in> set frames" "\<not> distinct (df_index g)"
    and h: "h \<in> set frames" "l \<in> set (df_index h)" "l \<notin> set (df_index g)"
  shows "merge_frames frames = Inl InvalidIndexError"
proof -
  from g(1) have ne: "frames \<noteq> []" by auto
  from g have nd: "\<not> (\<forall>f \<in> set frames. distinct (df_index f))" by blast
  from h(2,3) have gh: "df_index g \<noteq> df_index h" by auto
  have diff: "\<not> (\<forall>f \<in> set frames. df_index f = df_index (hd frames))"
  proof
    assume a: "\<forall>f \<in> set frames. df_index f = df_index (hd frames)"
    from a g(1) have "df_index g = df_index (hd frames)" by (rule bspec)
    moreover from a h(1) have "df_index h = df_index (hd frames)" by (rule bspec)
    ultimately show False using gh by simp
  qed
  have "df_index h \<in> set (map df_index frames)" using h(1) by simp
  from union_repeated_label[OF this h(2)]
  have "l \<in> set (union_repeated (map df_index frames))" .
  with h(3) have "df_index g \<noteq> union_repeated (map df_index frames)" by auto
  with g have bad: "\<not> (\<forall>f \<in> set frames. df_index f = union_repeated (map df_index frames)
                \<or> distinct (df_index f))" by blast
  from merge_frames_invalid[OF ne nd diff bad] show ?thesis .
qed

lemma same_index_sym:
  fixes frames frames' :: "fl dataframe list"
  assumes "set frames = set frames'" "frames \<noteq> []" "frames' \<noteq> []"
  shows "(\<forall>f \<in> set frames. df_index f = df_index (hd frames))
     \<longleftrightarrow> (\<forall>f \<in> set frames'. df_index f = df_index (hd frames'))"
proof -
  have "(\<forall>f \<in> set F. df_index f = df_index (hd F))
      \<longleftrightarrow> (\<forall>f \<in> set F. \<forall>g \<in> set F. df_index f = df_index g)"
    if "F \<noteq> []" for F :: "fl dataframe list"
  proof
    assume a: "\<forall>f \<in> set F. df_index f = df_index (hd F)"
    show "\<forall>f \<in> set F. \<forall>g \<in> set F. df_index f = df_index g"
    proof (intro ballI)
      fix f g assume "f \<in> set F" "g \<in> set F"
      with a have "df_index f = df_index (hd F)" "df_index g = df_index (hd F)" by simp_all
      then show "df_index f = df_index g" by simp
    qed
  next
    assume "\<forall>f \<in> set F. \<forall>g \<in> set F. df_index f = df_index g"
    moreover have "hd F \<in> set F" using that by simp
    ultimately show "\<forall>f \<in> set F. df_index f = df_index (hd F)" by blast
  qed
  from this[OF assms(2)] this[OF assms(3)] assms(1) show ?thesis by simp
qed

lemma merged_col_names_any:
  assumes "merge_frames frames = Inr p"
  shows "col_names p = concat (map col_names frames)"
proof -
  from assms have ne: "frames \<noteq> []" by (auto simp: merge_frames_def split: if_splits)
  show ?thesis
  proof (cases "\<forall>f \<in> set frames. distinct (df_index f)")
    case True
    from merge_frames_eq[OF ne True] assms show ?thesis
      by (auto simp: col_names_def[abs_def] map_concat comp_def split_def)
  next
    case False
    show ?thesis
    proof (cases "\<forall>f \<in> set frames. df_index f = df_index (hd frames)")
      case True
      from merge_frames_same_index[OF ne False True] assms show ?thesis
        by (auto simp: col_names_def[abs_def] map_concat comp_def split_def)
    next
      case diff: False
      show ?thesis
      proof (cases "\<forall>f \<in> set frames. df_index f = union_repeated (map df_index frames)
                \<or> distinct (df_index f)")
        case True
        from merge_frames_repeated[OF ne False diff True] assms show ?thesis
          by (auto simp: col_names_def[abs_def] map_concat comp_def split_def)
      next
        case bad: False
        from merge_frames_invalid[OF ne False diff bad] assms show ?thesis by simp
      qed
    qed
  qed
qed

lemma upt3: "[0..<3] = [0, 1, 2]" by (simp add: upt_rec)

text \<open>
  A source with two rows without a date and a source with the one date of the first: the
  first has the index of the merge and is taken as it is, the second is reindexed.
\<close>

lemma example_repeated_union:
  "union_repeated [[Ts 1, NaT, NaT], [Ts 1]] = [Ts 1, NaT, NaT]"
  by (simp add: union_repeated_def Let_def argsort_def take_rows_def upt3 eval_nat_numeral)

lemma example_repeated_merge:
  "merge_frames [\<lparr>df_index = [Ts 1, NaT, NaT], df_cols = [(''DGS10'', [Fin 1, Fin 2, Fin 3])]\<rparr>,
                 \<lparr>df_index = [Ts 1], df_cols = [(''BAA_YIELD'', [Fin 5])]\<rparr>]
   = Inr \<lparr>df_index = [Ts 1, NaT, NaT],
          df_cols = [(''DGS10'', [Fin 1, Fin 2, Fin 3]), (''BAA_YIELD'', [Fin 5, Fin 5, Fin 5])]\<rparr>"
  by (simp add: merge_frames_def concat_axis1_def example_repeated_union reindex_col_def
      sort_index_def argsort_def take_rows_def ffill_def upt3)

text \<open>
  Claim C8 (order-independence of the merge). The Panel is the date index together with
  the column that each metric name selects. For two orders of the same sources (column
  names distinct across the sources) the merge gives the same outcome: the same Panel,
  that is, the same date index and the same column under every name, or the same error.
  Sources whose labels do not repeat always give a Panel.
\<close>

theorem merge_order_independent:
  assumes perm: "mset frames = mset frames'"
    and names: "distinct (concat (map col_names frames))"
  shows "(\<forall>e. merge_frames frames = Inl e \<longrightarrow> merge_frames frames' = Inl e)
       \<and> (\<forall>p. merge_frames frames = Inr p \<longrightarrow>
              (\<exists>p'. merge_frames frames' = Inr p' \<and> df_index p' = df_index p
                    \<and> map_of (df_cols p') = map_of (df_cols p)
                    \<and> set (col_names p') = set (col_names p)))
       \<and> (frames \<noteq> [] \<and> (\<forall>f \<in> set frames. distinct (df_index f))
              \<longrightarrow> (\<exists>p. merge_frames frames = Inr p))"
proof -
  have sets: "set frames = set frames'" using perm by (rule mset_eq_setD)
  have third: "frames \<noteq> [] \<and> (\<forall>f \<in> set frames. distinct (df_index f))
      \<longrightarrow> (\<exists>p. merge_frames frames = Inr p)"
    using merge_frames_ok by blast
  have same_panel: "\<exists>p'. merge_frames frames' = Inr p' \<and> df_index p' = df_index p
        \<and> map_of (df_cols p') = map_of (df_cols p) \<and> set (col_names p') = set (col_names p)"
    if m: "merge_frames frames = Inr p" and m': "merge_frames frames' = Inr p'"
      and idx: "df_index p' = df_index p" and cols: "mset (df_cols p) = mset (df_cols p')"
    for p p'
  proof -
    have "map fst (df_cols p) = concat (map col_names frames)"
      using merged_col_names_any[OF m] by (simp add: col_names_def)
    with names have d: "distinct (map fst (df_cols p))" by simp
    have mo: "map_of (df_cols p) = map_of (df_cols p')" by (rule map_of_mset_cong[OF cols d])
    have "set (df_cols p) = set (df_cols p')" using cols by (rule mset_eq_setD)
    then have "set (col_names p') = set (col_names p)" by (simp add: col_names_def)
    with m' idx mo show ?thesis by simp
  qed
  show ?thesis
  proof (cases "frames = []")
    case True
    with perm have "frames' = []" by simp
    with True third show ?thesis by (simp add: merge_frames_def)
  next
    case ne: False
    with perm have ne': "frames' \<noteq> []" by auto
    show ?thesis
    proof (cases "\<forall>f \<in> set frames. distinct (df_index f)")
      case dist: True
      then have dist': "\<forall>f \<in> set frames'. distinct (df_index f)" using sets by simp
      define S where "S fs = take_rows (argsort (union_indexes (map df_index fs)))
                     (union_indexes (map df_index fs))" for fs :: "fl dataframe list"
      define F where "F L f = map (\<lambda>(n, c). (n, ffill_from NaN (reindex_col (df_index f) c L))) (df_cols f)"
        for L and f :: "fl dataframe"
      define q where "q = \<lparr>df_index = S frames, df_cols = concat (map (F (S frames)) frames)\<rparr>"
      define q' where "q' = \<lparr>df_index = S frames', df_cols = concat (map (F (S frames')) frames')\<rparr>"
      have m: "merge_frames frames = Inr q"
        unfolding q_def S_def F_def by (rule merge_frames_eq[OF ne dist])
      have m': "merge_frames frames' = Inr q'"
        unfolding q'_def S_def F_def by (rule merge_frames_eq[OF ne' dist'])
      have si: "set (map df_index frames) = set (map df_index frames')" using sets by simp
      have SS: "S frames = S frames'"
        unfolding S_def by (simp only: merged_labels si)
      have idx: "df_index q' = df_index q" by (simp add: q_def q'_def SS)
      have "mset (concat (map (F (S frames)) frames)) = mset (concat (map (F (S frames)) frames'))"
        by (rule mset_concat_map_cong[OF perm])
      then have cols: "mset (df_cols q) = mset (df_cols q')" by (simp add: q_def q'_def SS)
      from same_panel[OF m m' idx cols] m third show ?thesis by simp
    next
      case nd: False
      then have nd': "\<not> (\<forall>f \<in> set frames'. distinct (df_index f))" using sets by simp
      show ?thesis
      proof (cases "\<forall>f \<in> set frames. df_index f = df_index (hd frames)")
        case same: True
        then have same': "\<forall>f \<in> set frames'. df_index f = df_index (hd frames')"
          using same_index_sym[OF sets ne ne'] by simp
        have "hd frames' \<in> set frames" using ne' sets by simp
        with same have hd: "df_index (hd frames') = df_index (hd frames)" by simp
        define P where "P = argsort (df_index (hd frames))"
        define G where "G f = map (\<lambda>(n, c). (n, ffill_from NaN (take_rows P c))) (df_cols f)"
          for f :: "fl dataframe"
        define q where "q = \<lparr>df_index = take_rows P (df_index (hd frames)),
                               df_cols = concat (map G frames)\<rparr>"
        define q' where "q' = \<lparr>df_index = take_rows P (df_index (hd frames)),
                                df_cols = concat (map G frames')\<rparr>"
        have m: "merge_frames frames = Inr q"
          unfolding q_def G_def P_def by (rule merge_frames_same_index[OF ne nd same])
        have m': "merge_frames frames' = Inr q'"
          unfolding q'_def G_def P_def hd[symmetric]
          by (rule merge_frames_same_index[OF ne' nd' same'])
        have idx: "df_index q' = df_index q" by (simp add: q_def q'_def)
        have "mset (concat (map G frames)) = mset (concat (map G frames'))"
          by (rule mset_concat_map_cong[OF perm])
        then have cols: "mset (df_cols q) = mset (df_cols q')" by (simp add: q_def q'_def)
        from same_panel[OF m m' idx cols] m third show ?thesis by simp
      next
        case diff: False
        then have diff': "\<not> (\<forall>f \<in> set frames'. df_index f = df_index (hd frames'))"
          using same_index_sym[OF sets ne ne'] by simp
        define U where "U = union_repeated (map df_index frames)"
        have "set (map df_index frames) = set (map df_index frames')" using sets by simp
        then have U': "union_repeated (map df_index frames') = U"
          unfolding U_def by (rule union_repeated_cong[symmetric])
        show ?thesis
        proof (cases "\<forall>f \<in> set frames. df_index f = U \<or> distinct (df_index f)")
          case ok: True
          then have ok': "\<forall>f \<in> set frames'. df_index f = U \<or> distinct (df_index f)"
            using sets by simp
          define G where "G f = map (\<lambda>(n, c). (n, ffill_from NaN (take_rows (argsort U)
                (if df_index f = U then c else reindex_col (df_index f) c U)))) (df_cols f)"
            for f :: "fl dataframe"
          define q where "q = \<lparr>df_index = U, df_cols = concat (map G frames)\<rparr>"
          define q' where "q' = \<lparr>df_index = U, df_cols = concat (map G frames')\<rparr>"
          have m: "merge_frames frames = Inr q"
            unfolding q_def G_def U_def
            by (rule merge_frames_repeated[OF ne nd diff ok[unfolded U_def]])
          have m': "merge_frames frames' = Inr q'"
            unfolding q'_def G_def U'[symmetric]
            by (rule merge_frames_repeated[OF ne' nd' diff' ok'[unfolded U'[symmetric]]])
          have idx: "df_index q' = df_index q" by (simp add: q_def q'_def)
          have "mset (concat (map G frames)) = mset (concat (map G frames'))"
            by (rule mset_concat_map_cong[OF perm])
          then have cols: "mset (df_cols q) = mset (df_cols q')" by (simp add: q_def q'_def)
          from same_panel[OF m m' idx cols] m third show ?thesis by simp
        next
          case bad: False
          then have bad': "\<not> (\<forall>f \<in> set frames'. df_index f = U \<or> distinct (df_index f))"
            using sets by simp
          from merge_frames_invalid[OF ne nd diff bad[unfolded U_def]]
               merge_frames_invalid[OF ne' nd' diff' bad'[unfolded U'[symmetric]]] third
          show ?thesis by simp
        qed
      qed
    qed
  qed
qed

theorem merge_order_independent_witness:
  "(\<exists>p p'. merge_frames [\<lparr>df_index = [Ts 1], df_cols = [(''BAA_YIELD'', [Fin 5])]\<rparr>,
                 \<lparr>df_index = [Ts 1, Ts 2], df_cols = [(''DGS10'', [Fin 1, Fin 2])]\<rparr>] = Inr p
    \<and> merge_frames [\<lparr>df_index = [Ts 1, Ts 2], df_cols = [(''DGS10'', [Fin 1, Fin 2])]\<rparr>,
                   \<lparr>df_index = [Ts 1], df_cols = [(''BAA_YIELD'', [Fin 5])]\<rparr>] = Inr p'
    \<and> df_index p' = df_index p \<and> map_of (df_cols p') = map_of (df_cols p))
   \<and> merge_frames [\<lparr>df_index = [Ts 1, Ts 2], df_cols = [(''DGS10'', [Fin 1, Fin 2])]\<rparr>,
                   \<lparr>df_index = [NaT, NaT], df_cols = [(''BAA_YIELD'', [Fin 5, Fin 6])]\<rparr>]
       = Inl InvalidIndexError
   \<and> (\<exists>p'. merge_frames [\<lparr>df_index = [Ts 1], df_cols = [(''BAA_YIELD'', [Fin 5])]\<rparr>,
                 \<lparr>df_index = [Ts 1, NaT, NaT],
                  df_cols = [(''DGS10'', [Fin 1, Fin 2, Fin 3])]\<rparr>] = Inr p'
          \<and> df_index p' = [Ts 1, NaT, NaT]
          \<and> map_of (df_cols p') ''BAA_YIELD'' = Some [Fin 5, Fin 5, Fin 5]
          \<and> map_of (df_cols p') ''DGS10'' = Some [Fin 1, Fin 2, Fin 3])"
proof -
  let ?g = "\<lparr>df_index = [Ts 1, NaT, NaT], df_cols = [(''DGS10'', [Fin 1, Fin 2, Fin 3])]\<rparr>"
  let ?h = "\<lparr>df_index = [Ts 1], df_cols = [(''BAA_YIELD'', [Fin 5])]\<rparr>"
  have perm3: "mset [?g, ?h] = mset [?h, ?g]" by (simp add: add.commute)
  have names3: "distinct (concat (map col_names [?g, ?h]))" by (simp add: col_names_def)
  from merge_order_independent[OF perm3 names3] example_repeated_merge
  obtain p' where p': "merge_frames [?h, ?g] = Inr p'"
      "df_index p' = df_index \<lparr>df_index = [Ts 1, NaT, NaT],
          df_cols = [(''DGS10'', [Fin 1, Fin 2, Fin 3]), (''BAA_YIELD'', [Fin 5, Fin 5, Fin 5])]\<rparr>"
      "map_of (df_cols p') = map_of (df_cols \<lparr>df_index = [Ts 1, NaT, NaT],
          df_cols = [(''DGS10'', [Fin 1, Fin 2, Fin 3]), (''BAA_YIELD'', [Fin 5, Fin 5, Fin 5])]\<rparr>)"
    by blast
  from p'(2) have i3: "df_index p' = [Ts 1, NaT, NaT]" by simp
  from p'(3) have c3: "map_of (df_cols p') ''BAA_YIELD'' = Some [Fin 5, Fin 5, Fin 5]"
      "map_of (df_cols p') ''DGS10'' = Some [Fin 1, Fin 2, Fin 3]" by simp_all
  from p'(1) i3 c3 have third: "\<exists>p'. merge_frames [?h, ?g] = Inr p'
          \<and> df_index p' = [Ts 1, NaT, NaT]
          \<and> map_of (df_cols p') ''BAA_YIELD'' = Some [Fin 5, Fin 5, Fin 5]
          \<and> map_of (df_cols p') ''DGS10'' = Some [Fin 1, Fin 2, Fin 3]" by blast
  let ?fA = "\<lparr>df_index = [Ts 1], df_cols = [(''BAA_YIELD'', [Fin 5])]\<rparr>"
  let ?fB = "\<lparr>df_index = [Ts 1, Ts 2], df_cols = [(''DGS10'', [Fin 1, Fin 2])]\<rparr>"
  let ?fC = "\<lparr>df_index = [NaT, NaT], df_cols = [(''BAA_YIELD'', [Fin 5, Fin 6])]\<rparr>"
  have perm: "mset [?fA, ?fB] = mset [?fB, ?fA]" by (simp add: add.commute)
  have names: "distinct (concat (map col_names [?fA, ?fB]))" by (simp add: col_names_def)
  have ok: "\<exists>p. merge_frames [?fA, ?fB] = Inr p"
    using merge_order_independent[OF perm names] by simp
  then obtain p where p: "merge_frames [?fA, ?fB] = Inr p" by blast
  from merge_order_independent[OF perm names] p
  obtain p' where "merge_frames [?fB, ?fA] = Inr p'" "df_index p' = df_index p"
      "map_of (df_cols p') = map_of (df_cols p)" by blast
  with p have first: "\<exists>p p'. merge_frames [?fA, ?fB] = Inr p \<and> merge_frames [?fB, ?fA] = Inr p'
      \<and> df_index p' = df_index p \<and> map_of (df_cols p') = map_of (df_cols p)" by blast
  have perm2: "mset [?fC, ?fB] = mset [?fB, ?fC]" by (simp add: add.commute)
  have names2: "distinct (concat (map col_names [?fC, ?fB]))" by (simp add: col_names_def)
  have e: "merge_frames [?fC, ?fB] = Inl InvalidIndexError"
    by (rule merge_frames_missing_label[where g = ?fC and h = ?fB and l = "Ts 1"]) simp_all
  from merge_order_independent[OF perm2 names2] e
  have "merge_frames [?fB, ?fC] = Inl InvalidIndexError" by blast
  with first third show ?thesis by blast
qed

section \<open>Loading and merging the series\<close>





lemma load_frames_col_names:
  assumes "load_frames load ss = Inr fs"
    and "\<And>s f. load s = Inr (Some f) \<Longrightarrow> col_names f = [col s]"
  shows "concat (map col_names fs) = map col (filter (\<lambda>s. \<exists>f. load s = Inr (Some f)) ss)"
  using assms(1)
proof (induction ss arbitrary: fs)
  case Nil
  then show ?case by simp
next
  case (Cons s ss)
  show ?case
  proof (cases "load s")
    case (Inl e)
    with Cons.prems show ?thesis by simp
  next
    case (Inr r)
    show ?thesis
    proof (cases r)
      case None
      with Inr Cons show ?thesis by simp
    next
      case (Some f)
      with Inr Cons.prems obtain fs' where fs': "load_frames load ss = Inr fs'" "fs = f # fs'"
        by (auto split: sum.splits)
      from Cons.IH[OF fs'(1)] assms(2)[of s f] Inr Some fs'(2) show ?thesis by simp
    qed
  qed
qed

lemma load_series_col_names:
  "load_series to_datetime to_numeric read_latest_csv s = Inr (Some f) \<Longrightarrow> col_names f = [col s]"
  by (auto simp: load_series_def Let_def sort_index_def col_names_def
      split: option.splits list.splits if_splits)




lemma merge_all_col_names:
  assumes "merge_all to_datetime to_numeric read_latest_csv = Inr p"
  shows "set (col_names p) \<subseteq> col ` set SERIES"
proof -
  define load where "load = load_series to_datetime to_numeric read_latest_csv"
  from assms obtain frames where fr: "load_frames load SERIES = Inr frames"
    and m: "merge_frames frames = Inr p"
    by (auto simp: merge_all_def load_def split: sum.splits)
  have "col_names p = concat (map col_names frames)"
    by (rule merged_col_names_any[OF m])
  also have "\<dots> = map col (filter (\<lambda>s. \<exists>f. load s = Inr (Some f)) SERIES)"
    by (rule load_frames_col_names[OF fr]) (simp add: load_def load_series_col_names)
  finally show ?thesis by auto
qed

lemma example_load:
  "load_series example_to_datetime example_to_numeric example_read \<lparr>sid = ''DGS10'', col = ''DGS10''\<rparr>
    = Inr (Some \<lparr>df_index = [Ts 19724, Ts 19725, NaT],
                 df_cols = [(''DGS10'', [NaN, Fin (9 / 2), Fin (17 / 4)])]\<rparr>)"
  by (simp add: load_series_def example_read_def example_csv_def value_col_candidates_def
      date_col_of_def raw_columns_def raw_col_def date_col_candidates_def
      sort_index_def argsort_def take_rows_def upt3 example_to_datetime_def example_to_numeric_def)

lemma example_load_other:
  "s \<noteq> ''DGS10'' \<Longrightarrow>
   load_series example_to_datetime example_to_numeric example_read \<lparr>sid = s, col = c\<rparr> = Inr None"
  by (simp add: load_series_def example_read_def)













lemma mset_take_rows:
  assumes "mset perm = mset [0..<length xs]"
  shows "mset (take_rows perm xs) = mset xs"
proof -
  have "mset (take_rows perm xs) = image_mset (\<lambda>i. xs ! i) (mset perm)"
    by (simp add: take_rows_def)
  also have "\<dots> = mset (map (\<lambda>i. xs ! i) [0..<length xs])"
    using assms by simp
  finally show ?thesis by (simp add: map_nth)
qed

lemma zip_take_rows:
  "\<forall>i \<in> set perm. i < length a \<and> i < length b \<Longrightarrow>
   zip (take_rows perm a) (take_rows perm b) = take_rows perm (zip a b)"
  by (induction perm) (auto simp: take_rows_def)


text \<open>
  The raw file of the examples has the date cell \<open>n/a\<close>: its row is in the frame that
  \<^verbatim>\<open>load_series\<close> returns, under the label NaT.
\<close>

theorem unparsable_date_kept_counterexample:
  "load_series example_to_datetime example_to_numeric example_read \<lparr>sid = ''DGS10'', col = ''DGS10''\<rparr>
    = Inr (Some \<lparr>df_index = [Ts 19724, Ts 19725, NaT],
                 df_cols = [(''DGS10'', [NaN, Fin (9 / 2), Fin (17 / 4)])]\<rparr>)
   \<and> example_to_datetime (raw_col example_csv ''observation_date'') ''n/a'' = NaT
   \<and> raw_col example_csv ''observation_date'' = [''2024-01-03'', ''n/a'', ''2024-01-02'']"
  by (simp add: load_series_def example_read_def example_csv_def value_col_candidates_def
      date_col_of_def raw_columns_def raw_col_def date_col_candidates_def
      sort_index_def argsort_def take_rows_def upt3 example_to_datetime_def example_to_numeric_def)

text \<open>
  Claim C10, as amended. \<^verbatim>\<open>load_series\<close> keeps every row of the raw table: a date
  cell that does not parse becomes the label NaT, which is not fatal, and its row stays in
  the output. The labels of the output are the parsed date cells of all rows, the dates
  ascending first and the NaT labels after them, and every row keeps its value (read as a
  number, NaN when it is not one).
\<close>

theorem load_series_keeps_rows:
  assumes rd: "read_latest_csv (sid s) = Some df"
    and ld: "load_series to_datetime to_numeric read_latest_csv s = Inr (Some f)"
  shows "\<exists>value_col rest. value_col_candidates df = value_col # rest
     \<and> df_index f =
          map Ts (sort (days (map (to_datetime (raw_col df (date_col_of df)))
                                  (raw_col df (date_col_of df)))))
            @ filter (\<lambda>d. d = NaT) (map (to_datetime (raw_col df (date_col_of df)))
                                       (raw_col df (date_col_of df)))
     \<and> mset (df_index f) = mset (map (to_datetime (raw_col df (date_col_of df)))
                                     (raw_col df (date_col_of df)))
     \<and> (length (raw_col df value_col) = length (raw_col df (date_col_of df))
          \<longrightarrow> mset (zip (df_index f) (get_col f (col s)))
              = mset (zip (map (to_datetime (raw_col df (date_col_of df)))
                               (raw_col df (date_col_of df)))
                          (map to_numeric (raw_col df value_col))))"
proof -
  define dates where "dates = map (to_datetime (raw_col df (date_col_of df))) (raw_col df (date_col_of df))"
  from ld rd obtain value_col rest where vc: "value_col_candidates df = value_col # rest"
    by (cases "value_col_candidates df") (auto simp: load_series_def)
  define vals where "vals = raw_col df value_col"
  define perm where "perm = argsort dates"
  have f: "f = \<lparr>df_index = take_rows perm dates,
                df_cols = [(col s, map to_numeric (take_rows perm vals))]\<rparr>"
    using ld rd vc
    by (simp add: load_series_def Let_def sort_index_def dates_def vals_def perm_def
          split: if_splits)
  have mp: "mset perm = mset [0..<length dates]" unfolding perm_def by (rule mset_argsort)
  have sp: "\<forall>i \<in> set perm. i < length dates" unfolding perm_def by (simp add: set_argsort)
  have i1: "df_index f = map Ts (sort (days dates)) @ filter (\<lambda>d. d = NaT) dates"
    by (simp add: f perm_def sorted_labels)
  have i2: "mset (df_index f) = mset dates"
    using mset_take_rows[OF mp] by (simp add: f)
  have i3: "mset (zip (df_index f) (get_col f (col s))) = mset (zip dates (map to_numeric vals))"
    if len: "length vals = length dates"
  proof -
    have sp2: "\<forall>i \<in> set perm. i < length dates \<and> i < length (map to_numeric vals)"
      using sp len by simp
    have "get_col f (col s) = take_rows perm (map to_numeric vals)"
      using sp len by (simp add: f get_col_def take_rows_map)
    then have "zip (df_index f) (get_col f (col s)) = take_rows perm (zip dates (map to_numeric vals))"
      using zip_take_rows[OF sp2] by (simp add: f)
    moreover have "mset perm = mset [0..<length (zip dates (map to_numeric vals))]"
      using mp len by simp
    ultimately show ?thesis using mset_take_rows by metis
  qed
  from vc i1 i2 i3 show ?thesis unfolding dates_def vals_def by (simp del: mset_map)
qed

theorem load_series_keeps_rows_witness:
  "df_index \<lparr>df_index = [Ts 19724, Ts 19725, NaT],
             df_cols = [(''DGS10'', [NaN, Fin (9 / 2), Fin (17 / 4)])]\<rparr>
     = map Ts (sort (days [Ts 19725, NaT, Ts 19724])) @ filter (\<lambda>d. d = NaT) [Ts 19725, NaT, Ts 19724]"
proof -
  let ?s = "\<lparr>sid = ''DGS10'', col = ''DGS10''\<rparr>"
  let ?f = "\<lparr>df_index = [Ts 19724, Ts 19725, NaT],
             df_cols = [(''DGS10'', [NaN, Fin (9 / 2), Fin (17 / 4)])]\<rparr>"
  have rd: "example_read (sid ?s) = Some example_csv" by (simp add: example_read_def)
  have dates: "map (example_to_datetime (raw_col example_csv (date_col_of example_csv)))
                   (raw_col example_csv (date_col_of example_csv))
      = [Ts 19725, NaT, Ts 19724]"
    by (simp add: example_csv_def date_col_of_def raw_columns_def raw_col_def
        date_col_candidates_def example_to_datetime_def)
  from load_series_keeps_rows[OF rd example_load]
  have "df_index ?f =
          map Ts (sort (days (map (example_to_datetime (raw_col example_csv (date_col_of example_csv)))
                                  (raw_col example_csv (date_col_of example_csv)))))
            @ filter (\<lambda>d. d = NaT)
                (map (example_to_datetime (raw_col example_csv (date_col_of example_csv)))
                     (raw_col example_csv (date_col_of example_csv)))"
    by blast
  then show ?thesis unfolding dates .
qed

section \<open>Derived columns\<close>

lemma col_names_set_col:
  "col_names (set_col df n v) = (if n \<in> set (col_names df) then col_names df else col_names df @ [n])"
proof -
  have "map fst (map (\<lambda>(m, c). if m = n then (m, v) else (m, c)) xs) = map fst xs" for xs :: "(string \<times> 'a list) list"
    by (induction xs) auto
  then show ?thesis by (simp add: set_col_def col_names_def)
qed

lemma set_col_names_set_col: "set (col_names (set_col df n v)) = insert n (set (col_names df))"
  by (auto simp: col_names_set_col)

lemma map_of_replace:
  "map_of (map (\<lambda>(m, c). if m = n then (m, v) else (m, c)) xs) k =
     (if k = n then (if n \<in> fst ` set xs then Some v else None) else map_of xs k)"
proof (induction xs)
  case Nil
  then show ?case by simp
next
  case (Cons x xs)
  obtain m c where x: "x = (m, c)" by (cases x)
  show ?case using Cons.IH by (force simp: x)
qed

lemma get_col_set_col_same: "get_col (set_col df n v) n = v"
proof (cases "n \<in> set (col_names df)")
  case True
  then have "n \<in> fst ` set (df_cols df)" by (simp add: col_names_def)
  with True show ?thesis by (simp add: get_col_def set_col_def map_of_replace)
next
  case False
  then have "map_of (df_cols df) n = None" by (simp add: col_names_def map_of_eq_None_iff)
  with False show ?thesis by (simp add: get_col_def set_col_def map_add_def)
qed

lemma get_col_set_col_other: "k \<noteq> n \<Longrightarrow> get_col (set_col df n v) k = get_col df k"
  by (cases "n \<in> set (col_names df)")
    (auto simp: get_col_def set_col_def map_of_replace map_add_def split: option.splits)

lemma df_index_set_col: "df_index (set_col df n v) = df_index df"
  by (simp add: set_col_def)

lemma col_names_add_z: "set (col_names (add_z rm rs cs out)) = set (col_names out) \<union> z_name ` set cs"
  by (induction cs arbitrary: out) (auto simp: set_col_names_set_col)

lemma get_col_add_z_other: "k \<notin> z_name ` set cs \<Longrightarrow> get_col (add_z rm rs cs out) k = get_col out k"
  by (induction cs arbitrary: out) (auto simp: get_col_set_col_other)

lemma df_index_add_z: "df_index (add_z rm rs cs out) = df_index out"
  by (induction cs arbitrary: out) (auto simp: df_index_set_col)

lemma col_names_add_spread:
  "set (col_names (add_spread name a b out)) =
     (if {a, b} \<subseteq> set (col_names out) then insert name (set (col_names out))
      else set (col_names out))"
  by (simp add: add_spread_def set_col_names_set_col)

lemma get_col_add_spread_other: "k \<noteq> name \<Longrightarrow> get_col (add_spread name a b out) k = get_col out k"
  by (simp add: add_spread_def get_col_set_col_other)

lemma get_col_add_spread_same:
  "{a, b} \<subseteq> set (col_names out) \<Longrightarrow>
   get_col (add_spread name a b out) name = series_sub (get_col out a) (get_col out b)"
  by (simp add: add_spread_def get_col_set_col_same)

lemma df_index_add_spread: "df_index (add_spread name a b out) = df_index out"
  by (simp add: add_spread_def df_index_set_col)

lemma z_names: "z_name ` set (filter P z_whitelist) \<subseteq>
   {''IG_OAS_Z90'', ''HY_OAS_Z90'', ''HY_IG_SPREAD_Z90'', ''BAA_10Y_SPREAD_Z90'', ''TWOS_TENS_Z90''}"
proof -
  have "z_name ` set z_whitelist =
     {''IG_OAS_Z90'', ''HY_OAS_Z90'', ''HY_IG_SPREAD_Z90'', ''BAA_10Y_SPREAD_Z90'', ''TWOS_TENS_Z90''}"
    by (simp add: z_whitelist_def z_name_def)
  moreover have "z_name ` set (filter P z_whitelist) \<subseteq> z_name ` set z_whitelist" by auto
  ultimately show ?thesis by simp
qed

lemma spread_not_z:
  "''HY_IG_SPREAD'' \<notin> z_name ` set (filter P z_whitelist)"
  "''BAA_10Y_SPREAD'' \<notin> z_name ` set (filter P z_whitelist)"
  "''TWOS_TENS'' \<notin> z_name ` set (filter P z_whitelist)"
  using z_names[of P] by auto

lemma spread_not_source: "''HY_IG_SPREAD'' \<notin> col ` set SERIES"
  by (simp add: SERIES_def)

lemma add_derived_col_names:
  "set (col_names (add_derived rm rs df)) =
     set (col_names (add_spread ''TWOS_TENS'' ''DGS10'' ''DGS2''
            (add_spread ''BAA_10Y_SPREAD'' ''BAA_YIELD'' ''DGS10''
               (add_spread ''HY_IG_SPREAD'' ''HY_OAS'' ''IG_OAS'' df))))
     \<union> z_name ` set (filter (\<lambda>c. c \<in> set (col_names (add_spread ''TWOS_TENS'' ''DGS10'' ''DGS2''
            (add_spread ''BAA_10Y_SPREAD'' ''BAA_YIELD'' ''DGS10''
               (add_spread ''HY_IG_SPREAD'' ''HY_OAS'' ''IG_OAS'' df))))) z_whitelist)"
  by (simp add: add_derived_def Let_def col_names_add_z)

lemma add_derived_get_col:
  "k \<notin> {''IG_OAS_Z90'', ''HY_OAS_Z90'', ''HY_IG_SPREAD_Z90'', ''BAA_10Y_SPREAD_Z90'', ''TWOS_TENS_Z90''} \<Longrightarrow>
   get_col (add_derived rm rs df) k =
     get_col (add_spread ''TWOS_TENS'' ''DGS10'' ''DGS2''
            (add_spread ''BAA_10Y_SPREAD'' ''BAA_YIELD'' ''DGS10''
               (add_spread ''HY_IG_SPREAD'' ''HY_OAS'' ''IG_OAS'' df))) k"
  unfolding add_derived_def Let_def
  by (rule get_col_add_z_other) (use z_names in blast)

lemma spread_HY_IG:
  "({''HY_OAS'', ''IG_OAS''} \<subseteq> set (col_names df) \<longrightarrow>
      ''HY_IG_SPREAD'' \<in> set (col_names (add_derived rm rs df))
      \<and> get_col (add_derived rm rs df) ''HY_IG_SPREAD''
          = map2 fl_sub (get_col df ''HY_OAS'') (get_col df ''IG_OAS''))
   \<and> (\<not> {''HY_OAS'', ''IG_OAS''} \<subseteq> set (col_names df) \<and> ''HY_IG_SPREAD'' \<notin> set (col_names df)
        \<longrightarrow> ''HY_IG_SPREAD'' \<notin> set (col_names (add_derived rm rs df)))"
  using spread_not_z(1)
  by (auto simp: add_derived_col_names add_derived_get_col col_names_add_spread
      get_col_add_spread_other get_col_add_spread_same series_sub_def)

lemma spread_BAA_10Y:
  "({''BAA_YIELD'', ''DGS10''} \<subseteq> set (col_names df) \<longrightarrow>
      ''BAA_10Y_SPREAD'' \<in> set (col_names (add_derived rm rs df))
      \<and> get_col (add_derived rm rs df) ''BAA_10Y_SPREAD''
          = map2 fl_sub (get_col df ''BAA_YIELD'') (get_col df ''DGS10''))
   \<and> (\<not> {''BAA_YIELD'', ''DGS10''} \<subseteq> set (col_names df) \<and> ''BAA_10Y_SPREAD'' \<notin> set (col_names df)
        \<longrightarrow> ''BAA_10Y_SPREAD'' \<notin> set (col_names (add_derived rm rs df)))"
  using spread_not_z(2)
  by (auto simp: add_derived_col_names add_derived_get_col col_names_add_spread
      get_col_add_spread_other get_col_add_spread_same series_sub_def)

lemma spread_TWOS_TENS:
  "({''DGS10'', ''DGS2''} \<subseteq> set (col_names df) \<longrightarrow>
      ''TWOS_TENS'' \<in> set (col_names (add_derived rm rs df))
      \<and> get_col (add_derived rm rs df) ''TWOS_TENS''
          = map2 fl_sub (get_col df ''DGS10'') (get_col df ''DGS2''))
   \<and> (\<not> {''DGS10'', ''DGS2''} \<subseteq> set (col_names df) \<and> ''TWOS_TENS'' \<notin> set (col_names df)
        \<longrightarrow> ''TWOS_TENS'' \<notin> set (col_names (add_derived rm rs df)))"
  using spread_not_z(3)
  by (auto simp: add_derived_col_names add_derived_get_col col_names_add_spread
      get_col_add_spread_other get_col_add_spread_same series_sub_def)

lemma df_index_add_derived: "df_index (add_derived rm rs df) = df_index df"
  by (simp add: add_derived_def Let_def df_index_add_z df_index_add_spread)

lemma example_merge_all:
  "merge_all example_to_datetime example_to_numeric example_read
     = Inr \<lparr>df_index = [Ts 19724, Ts 19725, NaT],
            df_cols = [(''DGS10'', [NaN, Fin (9 / 2), Fin (17 / 4)])]\<rparr>"
proof -
  have fr: "load_frames (load_series example_to_datetime example_to_numeric example_read) SERIES
      = Inr [\<lparr>df_index = [Ts 19724, Ts 19725, NaT],
              df_cols = [(''DGS10'', [NaN, Fin (9 / 2), Fin (17 / 4)])]\<rparr>]"
    by (simp add: SERIES_def example_load example_load_other)
  show ?thesis
    by (simp add: merge_all_def fr merge_frames_def concat_axis1_def union_indexes_def
        reindex_col_def sort_index_def argsort_def take_rows_def ffill_def upt3)
qed

lemma get_col_present:
  assumes "c \<in> set (col_names df)"
  shows "\<exists>vs. map_of (df_cols df) c = Some vs \<and> (c, vs) \<in> set (df_cols df) \<and> get_col df c = vs"
proof -
  from assms have "map_of (df_cols df) c \<noteq> None"
    by (simp add: col_names_def map_of_eq_None_iff)
  then obtain vs where vs: "map_of (df_cols df) c = Some vs" by blast
  then have "(c, vs) \<in> set (df_cols df)" by (rule map_of_SomeD)
  with vs show ?thesis by (simp add: get_col_def)
qed

lemma get_col_length:
  assumes "wf_df df" "c \<in> set (col_names df)"
  shows "length (get_col df c) = length (df_index df)"
  using get_col_present[OF assms(2)] assms(1) by (auto simp: wf_df_def)

text \<open>The difference of two cells: that of the reals, and the IEEE results otherwise.\<close>

lemma fl_sub_cell:
  "(\<forall>x y. u = Fin x \<and> v = Fin y \<longrightarrow> fl_sub u v = Fin (x - y))
   \<and> (u = NaN \<or> v = NaN \<longrightarrow> fl_sub u v = NaN)
   \<and> (u = PInf \<and> (v = NInf \<or> (\<exists>y. v = Fin y)) \<longrightarrow> fl_sub u v = PInf)
   \<and> (u = NInf \<and> (v = PInf \<or> (\<exists>y. v = Fin y)) \<longrightarrow> fl_sub u v = NInf)
   \<and> ((\<exists>x. u = Fin x) \<and> v = PInf \<longrightarrow> fl_sub u v = NInf)
   \<and> ((\<exists>x. u = Fin x) \<and> v = NInf \<longrightarrow> fl_sub u v = PInf)
   \<and> (u = PInf \<and> v = PInf \<or> u = NInf \<and> v = NInf \<longrightarrow> fl_sub u v = NaN)"
  by (cases u; cases v; simp)

text \<open>
  Claim C6 (derived-column omission). Each of the three spreads is computed exactly when
  both of its input columns are in the frame: then the frame returned by
  \<^verbatim>\<open>add_derived\<close> has the column, equal to the elementwise difference of the two
  inputs on the shared index: it has a cell for every row, the cell of two numbers \<open>x\<close>
  and \<open>y\<close> is \<open>x - y\<close>, a cell with a NaN input is NaN, and the cells with an infinite
  input are those of IEEE arithmetic. Otherwise the column is omitted (a frame that did
  not have it does not get it). \<^verbatim>\<open>add_derived\<close> is a total function, it raises
  nothing, and it leaves the index as it is. In particular a Panel returned by
  \<^verbatim>\<open>merge_all\<close> without the column \<open>IG_OAS\<close> gets no column \<open>HY_IG_SPREAD\<close>.
\<close>

theorem derived_columns_conditional:
  assumes "(name, a, b) \<in> {(''HY_IG_SPREAD'', ''HY_OAS'', ''IG_OAS''),
                            (''BAA_10Y_SPREAD'', ''BAA_YIELD'', ''DGS10''),
                            (''TWOS_TENS'', ''DGS10'', ''DGS2'')}"
  shows "({a, b} \<subseteq> set (col_names df) \<longrightarrow>
            name \<in> set (col_names (add_derived rm rs df))
            \<and> get_col (add_derived rm rs df) name = map2 fl_sub (get_col df a) (get_col df b))
       \<and> (\<not> {a, b} \<subseteq> set (col_names df) \<and> name \<notin> set (col_names df)
            \<longrightarrow> name \<notin> set (col_names (add_derived rm rs df)))
       \<and> df_index (add_derived rm rs df) = df_index df
       \<and> (merge_all to_datetime to_numeric read_latest_csv = Inr p
            \<and> ''IG_OAS'' \<notin> set (col_names p)
            \<longrightarrow> ''HY_IG_SPREAD'' \<notin> set (col_names (add_derived rm rs p)))
       \<and> ({a, b} \<subseteq> set (col_names df) \<and> wf_df df
            \<longrightarrow> length (get_col (add_derived rm rs df) name) = length (df_index df))
       \<and> ({a, b} \<subseteq> set (col_names df) \<longrightarrow>
            (\<forall>i. i < length (get_col df a) \<and> i < length (get_col df b) \<longrightarrow>
               (\<forall>x y. get_col df a ! i = Fin x \<and> get_col df b ! i = Fin y
                    \<longrightarrow> get_col (add_derived rm rs df) name ! i = Fin (x - y))
             \<and> (get_col df a ! i = NaN \<or> get_col df b ! i = NaN
                    \<longrightarrow> get_col (add_derived rm rs df) name ! i = NaN)
             \<and> (get_col df a ! i = PInf
                  \<and> (get_col df b ! i = NInf \<or> (\<exists>y. get_col df b ! i = Fin y))
                    \<longrightarrow> get_col (add_derived rm rs df) name ! i = PInf)
             \<and> (get_col df a ! i = NInf
                  \<and> (get_col df b ! i = PInf \<or> (\<exists>y. get_col df b ! i = Fin y))
                    \<longrightarrow> get_col (add_derived rm rs df) name ! i = NInf)
             \<and> ((\<exists>x. get_col df a ! i = Fin x) \<and> get_col df b ! i = PInf
                    \<longrightarrow> get_col (add_derived rm rs df) name ! i = NInf)
             \<and> ((\<exists>x. get_col df a ! i = Fin x) \<and> get_col df b ! i = NInf
                    \<longrightarrow> get_col (add_derived rm rs df) name ! i = PInf)
             \<and> (get_col df a ! i = PInf \<and> get_col df b ! i = PInf
                  \<or> get_col df a ! i = NInf \<and> get_col df b ! i = NInf
                    \<longrightarrow> get_col (add_derived rm rs df) name ! i = NaN)))"
proof -
  define A where "A = get_col df a"
  define B where "B = get_col df b"
  define R where "R = get_col (add_derived rm rs df) name"
  have merged: "''HY_IG_SPREAD'' \<notin> set (col_names (add_derived rm rs p))"
    if m: "merge_all to_datetime to_numeric read_latest_csv = Inr p"
      and ig: "''IG_OAS'' \<notin> set (col_names p)"
  proof -
    from merge_all_col_names[OF m] spread_not_source
    have "''HY_IG_SPREAD'' \<notin> set (col_names p)" by blast
    with ig spread_HY_IG[of p] show ?thesis by simp
  qed
  from assms consider "(name, a, b) = (''HY_IG_SPREAD'', ''HY_OAS'', ''IG_OAS'')"
    | "(name, a, b) = (''BAA_10Y_SPREAD'', ''BAA_YIELD'', ''DGS10'')"
    | "(name, a, b) = (''TWOS_TENS'', ''DGS10'', ''DGS2'')"
    by blast
  then have first: "({a, b} \<subseteq> set (col_names df) \<longrightarrow>
            name \<in> set (col_names (add_derived rm rs df)) \<and> R = map2 fl_sub A B)
       \<and> (\<not> {a, b} \<subseteq> set (col_names df) \<and> name \<notin> set (col_names df)
            \<longrightarrow> name \<notin> set (col_names (add_derived rm rs df)))"
  proof cases
    case 1
    with spread_HY_IG[of df rm rs] show ?thesis by (simp add: A_def B_def R_def)
  next
    case 2
    with spread_BAA_10Y[of df rm rs] show ?thesis by (simp add: A_def B_def R_def)
  next
    case 3
    with spread_TWOS_TENS[of df rm rs] show ?thesis by (simp add: A_def B_def R_def)
  qed
  have len: "length R = length (df_index df)" if ab: "{a, b} \<subseteq> set (col_names df)" and wf: "wf_df df"
  proof -
    from first ab have "R = map2 fl_sub A B" by blast
    moreover have "length A = length (df_index df)" "length B = length (df_index df)"
      unfolding A_def B_def using ab by (auto intro: get_col_length[OF wf])
    ultimately show ?thesis by simp
  qed
  have cell: "R ! i = fl_sub (A ! i) (B ! i)"
    if ab: "{a, b} \<subseteq> set (col_names df)" and i: "i < length A" "i < length B" for i
  proof -
    from first ab have "R = map2 fl_sub A B" by blast
    with i show ?thesis by simp
  qed
  have cells: "(\<forall>x y. A ! i = Fin x \<and> B ! i = Fin y \<longrightarrow> R ! i = Fin (x - y))
             \<and> (A ! i = NaN \<or> B ! i = NaN \<longrightarrow> R ! i = NaN)
             \<and> (A ! i = PInf \<and> (B ! i = NInf \<or> (\<exists>y. B ! i = Fin y)) \<longrightarrow> R ! i = PInf)
             \<and> (A ! i = NInf \<and> (B ! i = PInf \<or> (\<exists>y. B ! i = Fin y)) \<longrightarrow> R ! i = NInf)
             \<and> ((\<exists>x. A ! i = Fin x) \<and> B ! i = PInf \<longrightarrow> R ! i = NInf)
             \<and> ((\<exists>x. A ! i = Fin x) \<and> B ! i = NInf \<longrightarrow> R ! i = PInf)
             \<and> (A ! i = PInf \<and> B ! i = PInf \<or> A ! i = NInf \<and> B ! i = NInf \<longrightarrow> R ! i = NaN)"
    if ab: "{a, b} \<subseteq> set (col_names df)" and i: "i < length A \<and> i < length B" for i
  proof -
    from cell[OF ab] i have r: "R ! i = fl_sub (A ! i) (B ! i)" by blast
    show ?thesis unfolding r by (rule fl_sub_cell)
  qed
  have idx: "df_index (add_derived rm rs df) = df_index df" by (rule df_index_add_derived)
  from first have c1: "{a, b} \<subseteq> set (col_names df) \<longrightarrow>
            name \<in> set (col_names (add_derived rm rs df)) \<and> R = map2 fl_sub A B"
    and c2: "\<not> {a, b} \<subseteq> set (col_names df) \<and> name \<notin> set (col_names df)
            \<longrightarrow> name \<notin> set (col_names (add_derived rm rs df))" by blast+
  have c4: "merge_all to_datetime to_numeric read_latest_csv = Inr p
            \<and> ''IG_OAS'' \<notin> set (col_names p)
            \<longrightarrow> ''HY_IG_SPREAD'' \<notin> set (col_names (add_derived rm rs p))"
    using merged by blast
  have c5: "{a, b} \<subseteq> set (col_names df) \<and> wf_df df \<longrightarrow> length R = length (df_index df)"
    using len by blast
  have c6: "{a, b} \<subseteq> set (col_names df) \<longrightarrow>
      (\<forall>i. i < length A \<and> i < length B \<longrightarrow>
               (\<forall>x y. A ! i = Fin x \<and> B ! i = Fin y \<longrightarrow> R ! i = Fin (x - y))
             \<and> (A ! i = NaN \<or> B ! i = NaN \<longrightarrow> R ! i = NaN)
             \<and> (A ! i = PInf \<and> (B ! i = NInf \<or> (\<exists>y. B ! i = Fin y)) \<longrightarrow> R ! i = PInf)
             \<and> (A ! i = NInf \<and> (B ! i = PInf \<or> (\<exists>y. B ! i = Fin y)) \<longrightarrow> R ! i = NInf)
             \<and> ((\<exists>x. A ! i = Fin x) \<and> B ! i = PInf \<longrightarrow> R ! i = NInf)
             \<and> ((\<exists>x. A ! i = Fin x) \<and> B ! i = NInf \<longrightarrow> R ! i = PInf)
             \<and> (A ! i = PInf \<and> B ! i = PInf \<or> A ! i = NInf \<and> B ! i = NInf \<longrightarrow> R ! i = NaN))"
  proof (intro impI allI)
    fix i assume ab: "{a, b} \<subseteq> set (col_names df)" and i: "i < length A \<and> i < length B"
    show "(\<forall>x y. A ! i = Fin x \<and> B ! i = Fin y \<longrightarrow> R ! i = Fin (x - y))
             \<and> (A ! i = NaN \<or> B ! i = NaN \<longrightarrow> R ! i = NaN)
             \<and> (A ! i = PInf \<and> (B ! i = NInf \<or> (\<exists>y. B ! i = Fin y)) \<longrightarrow> R ! i = PInf)
             \<and> (A ! i = NInf \<and> (B ! i = PInf \<or> (\<exists>y. B ! i = Fin y)) \<longrightarrow> R ! i = NInf)
             \<and> ((\<exists>x. A ! i = Fin x) \<and> B ! i = PInf \<longrightarrow> R ! i = NInf)
             \<and> ((\<exists>x. A ! i = Fin x) \<and> B ! i = NInf \<longrightarrow> R ! i = PInf)
             \<and> (A ! i = PInf \<and> B ! i = PInf \<or> A ! i = NInf \<and> B ! i = NInf \<longrightarrow> R ! i = NaN)"
      by (rule cells[OF ab i])
  qed
  show ?thesis
    unfolding A_def[symmetric] B_def[symmetric] R_def[symmetric]
    by (intro conjI c1 c2 idx c4 c5 c6)
qed

theorem derived_columns_conditional_witness:
  "get_col (add_derived (\<lambda>w m xs. xs) (\<lambda>w m xs. xs)
              \<lparr>df_index = [Ts 1, Ts 2],
               df_cols = [(''HY_OAS'', [Fin 5, Fin 6]), (''IG_OAS'', [Fin 1, NaN])]\<rparr>)
      ''HY_IG_SPREAD'' = [Fin 4, NaN]
   \<and> get_col (add_derived (\<lambda>w m xs. xs) (\<lambda>w m xs. xs)
              \<lparr>df_index = [Ts 1, Ts 2],
               df_cols = [(''HY_OAS'', [Fin 5, Fin 6]), (''IG_OAS'', [Fin 1, NaN])]\<rparr>)
      ''HY_IG_SPREAD'' ! 0 = Fin 4
   \<and> ''HY_IG_SPREAD'' \<notin> set (col_names (add_derived (\<lambda>w m xs. xs) (\<lambda>w m xs. xs)
         \<lparr>df_index = [Ts 1, Ts 2], df_cols = [(''HY_OAS'', [Fin 5, Fin 6])]\<rparr>))
   \<and> ''HY_IG_SPREAD'' \<notin> set (col_names (add_derived (\<lambda>w m xs. xs) (\<lambda>w m xs. xs)
         \<lparr>df_index = [Ts 19724, Ts 19725, NaT],
          df_cols = [(''DGS10'', [NaN, Fin (9 / 2), Fin (17 / 4)])]\<rparr>))"
proof -
  let ?r = "\<lambda>(w :: nat) (m :: nat) (xs :: fl list). xs"
  let ?both = "\<lparr>df_index = [Ts 1, Ts 2],
                df_cols = [(''HY_OAS'', [Fin 5, Fin 6]), (''IG_OAS'', [Fin 1, NaN])]\<rparr>"
  let ?hy = "\<lparr>df_index = [Ts 1, Ts 2], df_cols = [(''HY_OAS'', [Fin 5, Fin 6])]\<rparr>"
  let ?p = "\<lparr>df_index = [Ts 19724, Ts 19725, NaT],
            df_cols = [(''DGS10'', [NaN, Fin (9 / 2), Fin (17 / 4)])]\<rparr>"
  have mem: "(''HY_IG_SPREAD'', ''HY_OAS'', ''IG_OAS'') \<in>
      {(''HY_IG_SPREAD'', ''HY_OAS'', ''IG_OAS''), (''BAA_10Y_SPREAD'', ''BAA_YIELD'', ''DGS10''),
       (''TWOS_TENS'', ''DGS10'', ''DGS2'')}" by simp
  have ab: "{''HY_OAS'', ''IG_OAS''} \<subseteq> set (col_names ?both)" by (simp add: col_names_def)
  note t = derived_columns_conditional[OF mem, where df = ?both and rm = ?r and rs = ?r]
  from t have "{''HY_OAS'', ''IG_OAS''} \<subseteq> set (col_names ?both) \<longrightarrow>
      ''HY_IG_SPREAD'' \<in> set (col_names (add_derived ?r ?r ?both))
      \<and> get_col (add_derived ?r ?r ?both) ''HY_IG_SPREAD''
          = map2 fl_sub (get_col ?both ''HY_OAS'') (get_col ?both ''IG_OAS'')"
    by (rule conjunct1)
  with ab have "get_col (add_derived ?r ?r ?both) ''HY_IG_SPREAD''
          = map2 fl_sub (get_col ?both ''HY_OAS'') (get_col ?both ''IG_OAS'')" by blast
  also have "\<dots> = [Fin 4, NaN]" by (simp add: get_col_def)
  finally have a: "get_col (add_derived ?r ?r ?both) ''HY_IG_SPREAD'' = [Fin 4, NaN]" .
  note c6 = t[THEN conjunct2, THEN conjunct2, THEN conjunct2, THEN conjunct2, THEN conjunct2]
  from c6 ab have "\<forall>i. i < length (get_col ?both ''HY_OAS'') \<and> i < length (get_col ?both ''IG_OAS'')
      \<longrightarrow> (\<forall>x y. get_col ?both ''HY_OAS'' ! i = Fin x \<and> get_col ?both ''IG_OAS'' ! i = Fin y
                \<longrightarrow> get_col (add_derived ?r ?r ?both) ''HY_IG_SPREAD'' ! i = Fin (x - y))"
    by blast
  then have "0 < length (get_col ?both ''HY_OAS'') \<and> 0 < length (get_col ?both ''IG_OAS'')
      \<longrightarrow> (\<forall>x y. get_col ?both ''HY_OAS'' ! 0 = Fin x \<and> get_col ?both ''IG_OAS'' ! 0 = Fin y
                \<longrightarrow> get_col (add_derived ?r ?r ?both) ''HY_IG_SPREAD'' ! 0 = Fin (x - y))"
    by (rule spec)
  moreover have "get_col ?both ''HY_OAS'' = [Fin 5, Fin 6]" "get_col ?both ''IG_OAS'' = [Fin 1, NaN]"
    by (simp_all add: get_col_def)
  ultimately have a0: "get_col (add_derived ?r ?r ?both) ''HY_IG_SPREAD'' ! 0 = Fin 4"
    by simp
  have b: "''HY_IG_SPREAD'' \<notin> set (col_names (add_derived ?r ?r ?hy))"
    using derived_columns_conditional[OF mem, where df = ?hy and rm = ?r and rs = ?r,
        THEN conjunct2, THEN conjunct1]
    by (simp add: col_names_def)
  have c: "''HY_IG_SPREAD'' \<notin> set (col_names (add_derived ?r ?r ?p))"
    using derived_columns_conditional[OF mem, where rm = ?r and rs = ?r and p = ?p
        and to_datetime = example_to_datetime and to_numeric = example_to_numeric
        and read_latest_csv = example_read,
        THEN conjunct2, THEN conjunct2, THEN conjunct2, THEN conjunct1]
    by (simp add: example_merge_all col_names_def)
  from a a0 b c show ?thesis by simp
qed

section \<open>The table of current spreads\<close>

lemma days_map_Ts: "days (map Ts ds) = ds"
  by (induction ds) auto

lemma fold_max_Max: "fold max ds (d :: int) = Max (set (d # ds))"
  by (rule Max.set_eq_fold[symmetric])

lemma index_max_dates: "ds \<noteq> [] \<Longrightarrow> index_max (map Ts ds) = Ts (Max (set ds))"
proof (cases ds)
  case Nil
  assume "ds \<noteq> []"
  with Nil show ?thesis by simp
next
  case (Cons d ds')
  have "index_max (map Ts ds) = Ts (fold max ds' d)"
    unfolding index_max_def days_map_Ts Cons by simp
  then show ?thesis unfolding fold_max_Max Cons .
qed

lemma strict_sorted_last_Max:
  assumes "sorted_wrt (<) (ds :: int list)" "ds \<noteq> []"
  shows "Max (set ds) = last ds"
proof -
  have s: "sorted ds" using assms(1) by (simp add: strict_sorted_iff)
  have "x \<le> last ds" if "x \<in> set ds" for x
  proof -
    from that obtain i where i: "i < length ds" "ds ! i = x" by (auto simp: in_set_conv_nth)
    have "ds ! i \<le> ds ! (length ds - 1)"
      by (rule sorted_nth_mono[OF s]) (use i assms(2) in auto)
    with i assms(2) show ?thesis by (simp add: last_conv_nth)
  qed
  then have "\<forall>x \<in> set ds. x \<le> last ds" by blast
  moreover have "last ds \<in> set ds" using assms(2) by simp
  ultimately show ?thesis by (simp add: Max_eqI)
qed

lemma get_col_rows_from:
  "get_col (rows_from start df) c =
     map snd (filter (\<lambda>(d, v). ts_ge d start) (zip (df_index df) (get_col df c)))"
  by (cases "map_of (df_cols df) c") (simp_all add: rows_from_def get_col_def map_of_map)

lemma index_max_days:
  "(days idx = [] \<longrightarrow> index_max idx = NaT)
   \<and> (days idx \<noteq> [] \<longrightarrow> index_max idx = Ts (Max (set (days idx))))"
proof (cases "days idx")
  case Nil
  then show ?thesis by (simp add: index_max_def)
next
  case (Cons d ds)
  have "index_max idx = Ts (fold max ds d)" by (simp add: index_max_def Cons)
  then show ?thesis unfolding fold_max_Max Cons by simp
qed

lemma table_rows_eq:
  assumes "\<forall>(c, label) \<in> set ms. c \<in> set (col_names df) \<longrightarrow> get_col df c \<noteq> []"
  shows "table_rows rnd df sub ms =
     Inr (map (\<lambda>(c, label). \<lparr>Metric = label,
                               Current = rounded_or_none rnd (last (get_col df c)),
                               High_1y = rounded_or_none rnd (series_max (get_col sub c)),
                               Low_1y = rounded_or_none rnd (series_min (get_col sub c))\<rparr>)
              (filter (\<lambda>(c, label). c \<in> set (col_names df)) ms))"
  using assms
proof (induction ms)
  case Nil
  then show ?case by simp
next
  case (Cons m ms)
  obtain c label where m: "m = (c, label)" by (cases m)
  from Cons.prems have rest: "\<forall>(c, label) \<in> set ms. c \<in> set (col_names df) \<longrightarrow> get_col df c \<noteq> []"
    by simp
  note IH = Cons.IH[OF rest]
  show ?case
  proof (cases "c \<in> set (col_names df)")
    case False
    with IH show ?thesis by (simp add: m)
  next
    case True
    with Cons.prems m have "get_col df c \<noteq> []" by simp
    then obtain v vs where "get_col df c = v # vs" by (cases "get_col df c") auto
    with True IH show ?thesis by (simp add: m Let_def)
  qed
qed

lemma ts_ge_window:
  "ts_ge d (minus_year year_before (Ts e)) \<longleftrightarrow> (\<exists>t. d = Ts t \<and> year_before e \<le> t)"
  by (cases d) auto

lemma fl_le_refl: "a \<noteq> NaN \<Longrightarrow> fl_le a a"
  by (cases a) auto

lemma fl_le_total: "a \<noteq> NaN \<Longrightarrow> b \<noteq> NaN \<Longrightarrow> fl_le a b \<or> fl_le b a"
  by (cases a; cases b) auto

lemma fl_le_trans: "fl_le a b \<Longrightarrow> fl_le b c \<Longrightarrow> fl_le a c"
  by (cases a; cases b; cases c) auto

lemma fold_max_spec:
  assumes "v \<noteq> NaN" "\<forall>x \<in> set rest. x \<noteq> NaN"
  shows "fold (\<lambda>x acc. if fl_le acc x then x else acc) rest v \<in> set (v # rest)
       \<and> (\<forall>x \<in> set (v # rest). fl_le x (fold (\<lambda>x acc. if fl_le acc x then x else acc) rest v))"
  using assms
proof (induction rest arbitrary: v)
  case Nil
  then show ?case by (simp add: fl_le_refl)
next
  case (Cons x rest)
  let ?f = "\<lambda>x acc. if fl_le acc x then x else acc"
  let ?v' = "?f x v"
  have x: "x \<noteq> NaN" using Cons.prems(2) by simp
  have v': "?v' \<noteq> NaN" using x Cons.prems(1) by simp
  have rest: "\<forall>x \<in> set rest. x \<noteq> NaN" using Cons.prems(2) by simp
  from Cons.IH[OF v' rest]
  have mem: "fold ?f rest ?v' \<in> set (?v' # rest)"
    and ub: "\<forall>y \<in> set (?v' # rest). fl_le y (fold ?f rest ?v')" by blast+
  have le_v: "fl_le v ?v'" using fl_le_refl[OF Cons.prems(1)] by simp
  have le_x: "fl_le x ?v'" using fl_le_total[OF Cons.prems(1) x] fl_le_refl[OF x] by auto
  from ub have top: "fl_le ?v' (fold ?f rest ?v')" by simp
  have "fl_le v (fold ?f rest ?v')" by (rule fl_le_trans[OF le_v top])
  moreover have "fl_le x (fold ?f rest ?v')" by (rule fl_le_trans[OF le_x top])
  moreover have "fold ?f rest ?v' \<in> set (v # x # rest)" using mem by auto
  ultimately show ?case using ub by simp
qed

lemma fold_min_spec:
  assumes "v \<noteq> NaN" "\<forall>x \<in> set rest. x \<noteq> NaN"
  shows "fold (\<lambda>x acc. if fl_le x acc then x else acc) rest v \<in> set (v # rest)
       \<and> (\<forall>x \<in> set (v # rest). fl_le (fold (\<lambda>x acc. if fl_le x acc then x else acc) rest v) x)"
  using assms
proof (induction rest arbitrary: v)
  case Nil
  then show ?case by (simp add: fl_le_refl)
next
  case (Cons x rest)
  let ?f = "\<lambda>x acc. if fl_le x acc then x else acc"
  let ?v' = "?f x v"
  have x: "x \<noteq> NaN" using Cons.prems(2) by simp
  have v': "?v' \<noteq> NaN" using x Cons.prems(1) by simp
  have rest: "\<forall>x \<in> set rest. x \<noteq> NaN" using Cons.prems(2) by simp
  from Cons.IH[OF v' rest]
  have mem: "fold ?f rest ?v' \<in> set (?v' # rest)"
    and lb: "\<forall>y \<in> set (?v' # rest). fl_le (fold ?f rest ?v') y" by blast+
  have le_v: "fl_le ?v' v" using fl_le_refl[OF Cons.prems(1)] by simp
  have le_x: "fl_le ?v' x" using fl_le_total[OF Cons.prems(1) x] fl_le_refl[OF x] by auto
  from lb have bot: "fl_le (fold ?f rest ?v') ?v'" by simp
  have "fl_le (fold ?f rest ?v') v" by (rule fl_le_trans[OF bot le_v])
  moreover have "fl_le (fold ?f rest ?v') x" by (rule fl_le_trans[OF bot le_x])
  moreover have "fold ?f rest ?v' \<in> set (v # x # rest)" using mem by auto
  ultimately show ?case using lb by simp
qed

lemma series_max_spec:
  "(filter (\<lambda>v. v \<noteq> NaN) vs = [] \<longrightarrow> series_max vs = NaN)
   \<and> (filter (\<lambda>v. v \<noteq> NaN) vs \<noteq> [] \<longrightarrow>
        series_max vs \<in> set (filter (\<lambda>v. v \<noteq> NaN) vs)
        \<and> (\<forall>v \<in> set (filter (\<lambda>v. v \<noteq> NaN) vs). fl_le v (series_max vs)))"
proof (cases "filter (\<lambda>v. v \<noteq> NaN) vs")
  case Nil
  then show ?thesis by (simp add: series_max_def)
next
  case (Cons v rest)
  have "\<forall>x \<in> set (v # rest). x \<noteq> NaN"
    unfolding Cons[symmetric] by simp
  then have "v \<noteq> NaN" "\<forall>x \<in> set rest. x \<noteq> NaN" by simp_all
  from fold_max_spec[OF this] show ?thesis
    unfolding series_max_def Cons by simp
qed

lemma series_min_spec:
  "(filter (\<lambda>v. v \<noteq> NaN) vs = [] \<longrightarrow> series_min vs = NaN)
   \<and> (filter (\<lambda>v. v \<noteq> NaN) vs \<noteq> [] \<longrightarrow>
        series_min vs \<in> set (filter (\<lambda>v. v \<noteq> NaN) vs)
        \<and> (\<forall>v \<in> set (filter (\<lambda>v. v \<noteq> NaN) vs). fl_le (series_min vs) v))"
proof (cases "filter (\<lambda>v. v \<noteq> NaN) vs")
  case Nil
  then show ?thesis by (simp add: series_min_def)
next
  case (Cons v rest)
  have "\<forall>x \<in> set (v # rest). x \<noteq> NaN"
    unfolding Cons[symmetric] by simp
  then have "v \<noteq> NaN" "\<forall>x \<in> set rest. x \<noteq> NaN" by simp_all
  from fold_min_spec[OF this] show ?thesis
    unfolding series_min_def Cons by simp
qed

text \<open>
  A column whose value at the latest date is 1.234: the table reports 1.23, what
  \<^verbatim>\<open>round(x, 2)\<close> makes of it. A Panel whose last row has the label NaT (a date that
  did not parse): the latest date is that of the first row, and the current value is the
  one of the last row.
\<close>

theorem current_table_rounding_counterexample:
  "build_current_table example_round ((+) (- 365))
      \<lparr>df_index = [Ts 0], df_cols = [(''HY_OAS'', [Fin (617 / 500)])]\<rparr>
    = Inr [\<lparr>Metric = ''HY OAS'', Current = Some (Fin (123 / 100)),
            High_1y = Some (Fin (123 / 100)), Low_1y = Some (Fin (123 / 100))\<rparr>]
   \<and> index_max [Ts 1, NaT] = Ts 1
   \<and> build_current_table example_round ((+) (- 365))
      \<lparr>df_index = [Ts 1, NaT], df_cols = [(''HY_OAS'', [Fin 5, Fin 7])]\<rparr>
    = Inr [\<lparr>Metric = ''HY OAS'', Current = Some (Fin 7),
            High_1y = Some (Fin 5), Low_1y = Some (Fin 5)\<rparr>]"
  by (simp add: build_current_table_def metrics_def col_names_def get_col_def rows_from_def
      index_max_def series_max_def series_min_def rounded_or_none_def example_round_def Let_def)

lemma current_table_example:
  assumes "e - 366 \<le> year_before e" "year_before e \<le> e - 365" "rnd 5 = 5" "rnd 3 = 3"
  shows "build_current_table rnd year_before
      \<lparr>df_index = [Ts (e - 400), Ts (e - 10), Ts e],
       df_cols = [(''HY_OAS'', [Fin 1, Fin 3, Fin 5])]\<rparr>
    = Inr [\<lparr>Metric = ''HY OAS'', Current = Some (Fin 5),
            High_1y = Some (Fin 5), Low_1y = Some (Fin 3)\<rparr>]"
  using assms
  by (simp add: build_current_table_def metrics_def col_names_def get_col_def rows_from_def
      index_max_def series_max_def series_min_def rounded_or_none_def Let_def)

text \<open>
  Claim C9, as amended. For a frame with at least one row (every column as long as the
  index), \<^verbatim>\<open>build_current_table\<close> returns one row per metric whose column is in the
  frame, in the order of the metrics. With \<open>end\<close> the latest date of the index (labels
  that are not dates do not count), the row of a metric reports the value of its column
  in the last row of the frame, and the maximum and the minimum of the column over the rows
  with date \<open>\<ge> end - 1 year\<close>, missing values ignored; each of the three is passed through
  \<^verbatim>\<open>round(x, 2)\<close>, and is absent when missing. When the index is an ascending list of
  dates, the last row is the row at \<open>end\<close>. A date one calendar year before \<open>e\<close> is 365
  or 366 days before it: for a metric with the values 1.0 at \<open>e - 400\<close>, 3.0 at
  \<open>e - 10\<close> and 5.0 at \<open>e\<close>, which the rounding leaves as they are, the row is current
  5.0, high 5.0, low 3.0.
\<close>

theorem current_table_rounded:
  assumes wf: "wf_df df" and ne: "df_index df \<noteq> []"
  shows "build_current_table rnd year_before df =
      Inr (map (\<lambda>(c, label).
             \<lparr>Metric = label,
              Current = rounded_or_none rnd (get_col df c ! (length (df_index df) - 1)),
              High_1y = rounded_or_none rnd (series_max (map snd
                 (filter (\<lambda>(d, v). ts_ge d (minus_year year_before (index_max (df_index df))))
                         (zip (df_index df) (get_col df c))))),
              Low_1y = rounded_or_none rnd (series_min (map snd
                 (filter (\<lambda>(d, v). ts_ge d (minus_year year_before (index_max (df_index df))))
                         (zip (df_index df) (get_col df c)))))\<rparr>)
           (filter (\<lambda>(c, label). c \<in> set (col_names df)) metrics))
     \<and> (days (df_index df) = [] \<longrightarrow> index_max (df_index df) = NaT)
     \<and> (days (df_index df) \<noteq> [] \<longrightarrow>
          index_max (df_index df) = Ts (Max (set (days (df_index df)))))
     \<and> (\<forall>d. ts_ge d (minus_year year_before (Ts e)) \<longleftrightarrow> (\<exists>t. d = Ts t \<and> year_before e \<le> t))
     \<and> (\<forall>d. \<not> ts_ge d (minus_year year_before NaT))
     \<and> (\<forall>ds. df_index df = map Ts ds \<and> sorted_wrt (<) ds \<longrightarrow>
          df_index df ! (length (df_index df) - 1) = index_max (df_index df))
     \<and> (\<forall>x. rounded_or_none rnd (Fin x) = Some (Fin (rnd x)))
     \<and> rounded_or_none rnd NaN = None
     \<and> rounded_or_none rnd PInf = Some PInf
     \<and> rounded_or_none rnd NInf = Some NInf
     \<and> (filter (\<lambda>v. v \<noteq> NaN) vs = [] \<longrightarrow> series_max vs = NaN \<and> series_min vs = NaN)
     \<and> (filter (\<lambda>v. v \<noteq> NaN) vs \<noteq> [] \<longrightarrow>
          series_max vs \<in> set (filter (\<lambda>v. v \<noteq> NaN) vs)
          \<and> series_min vs \<in> set (filter (\<lambda>v. v \<noteq> NaN) vs)
          \<and> (\<forall>v \<in> set (filter (\<lambda>v. v \<noteq> NaN) vs).
                fl_le v (series_max vs) \<and> fl_le (series_min vs) v))
     \<and> (e - 366 \<le> year_before e \<and> year_before e \<le> e - 365 \<and> rnd 5 = 5 \<and> rnd 3 = 3 \<longrightarrow>
          build_current_table rnd year_before
            \<lparr>df_index = [Ts (e - 400), Ts (e - 10), Ts e],
             df_cols = [(''HY_OAS'', [Fin 1, Fin 3, Fin 5])]\<rparr>
          = Inr [\<lparr>Metric = ''HY OAS'', Current = Some (Fin 5),
                  High_1y = Some (Fin 5), Low_1y = Some (Fin 3)\<rparr>])"
proof -
  define start where "start = minus_year year_before (index_max (df_index df))"
  define n where "n = length (df_index df)"
  define sub where "sub = rows_from start df"
  define model where "model = (\<lambda>(c, label). \<lparr>Metric = label,
                               Current = rounded_or_none rnd (last (get_col df c)),
                               High_1y = rounded_or_none rnd (series_max (get_col sub c)),
                               Low_1y = rounded_or_none rnd (series_min (get_col sub c))\<rparr>)"
  define spec where "spec = (\<lambda>(c, label).
             \<lparr>Metric = label,
              Current = rounded_or_none rnd (get_col df c ! (n - 1)),
              High_1y = rounded_or_none rnd (series_max (map snd
                 (filter (\<lambda>(d, v). ts_ge d start) (zip (df_index df) (get_col df c))))),
              Low_1y = rounded_or_none rnd (series_min (map snd
                 (filter (\<lambda>(d, v). ts_ge d start) (zip (df_index df) (get_col df c)))))\<rparr>)"
  have npos: "n \<noteq> 0" using ne by (simp add: n_def)
  have len: "length (get_col df c) = n" if "c \<in> set (col_names df)" for c
    using get_col_length[OF wf that] by (simp add: n_def)
  have nonempty: "\<forall>(c, label) \<in> set metrics. c \<in> set (col_names df) \<longrightarrow> get_col df c \<noteq> []"
  proof (intro ballI, clarify)
    fix c label assume "c \<in> set (col_names df)" "get_col df c = []"
    with len[of c] npos show False by simp
  qed
  have bt: "build_current_table rnd year_before df = table_rows rnd df sub metrics"
    by (simp add: build_current_table_def Let_def sub_def start_def)
  have row: "model m = spec m" if "m \<in> set (filter (\<lambda>(c, label). c \<in> set (col_names df)) metrics)" for m
  proof -
    obtain c label where m: "m = (c, label)" by (cases m)
    with that have c: "c \<in> set (col_names df)" by simp
    have "get_col df c \<noteq> []" using len[OF c] npos by auto
    then have "last (get_col df c) = get_col df c ! (n - 1)"
      by (simp add: last_conv_nth len[OF c])
    then show ?thesis by (simp add: m model_def spec_def sub_def get_col_rows_from)
  qed
  have "table_rows rnd df sub metrics
      = Inr (map model (filter (\<lambda>(c, label). c \<in> set (col_names df)) metrics))"
    unfolding model_def by (rule table_rows_eq[OF nonempty])
  also have "map model (filter (\<lambda>(c, label). c \<in> set (col_names df)) metrics)
      = map spec (filter (\<lambda>(c, label). c \<in> set (col_names df)) metrics)"
    by (rule map_cong[OF refl row])
  finally have table: "build_current_table rnd year_before df
      = Inr (map spec (filter (\<lambda>(c, label). c \<in> set (col_names df)) metrics))"
    using bt by simp
  have im1: "days (df_index df) = [] \<longrightarrow> index_max (df_index df) = NaT"
    and im2: "days (df_index df) \<noteq> [] \<longrightarrow>
          index_max (df_index df) = Ts (Max (set (days (df_index df))))"
    using index_max_days[of "df_index df"] by blast+
  have w1: "\<forall>d. ts_ge d (minus_year year_before (Ts e)) \<longleftrightarrow> (\<exists>t. d = Ts t \<and> year_before e \<le> t)"
    by (simp only: ts_ge_window) simp
  have w2: "\<forall>d. \<not> ts_ge d (minus_year year_before NaT)"
  proof
    fix d show "\<not> ts_ge d (minus_year year_before NaT)" by (cases d) simp_all
  qed
  have last_label: "\<forall>ds. df_index df = map Ts ds \<and> sorted_wrt (<) ds \<longrightarrow>
          df_index df ! (n - 1) = index_max (df_index df)"
  proof (intro allI impI, elim conjE)
    fix ds assume idx: "df_index df = map Ts ds" and asc: "sorted_wrt (<) ds"
    from ne idx have dne: "ds \<noteq> []" by auto
    have "map Ts ds ! (length ds - 1) = Ts (last ds)"
      using dne by (simp add: last_conv_nth)
    then show "df_index df ! (n - 1) = index_max (df_index df)"
      by (simp add: idx n_def strict_sorted_last_Max[OF asc dne] index_max_dates[OF dne])
  qed
  have r1: "\<forall>x. rounded_or_none rnd (Fin x) = Some (Fin (rnd x))"
    and r2: "rounded_or_none rnd NaN = None"
    and r3: "rounded_or_none rnd PInf = Some PInf"
    and r4: "rounded_or_none rnd NInf = Some NInf"
    by (simp_all add: rounded_or_none_def)
  have s1: "filter (\<lambda>v. v \<noteq> NaN) vs = [] \<longrightarrow> series_max vs = NaN \<and> series_min vs = NaN"
    using series_max_spec[of vs] series_min_spec[of vs] by blast
  have s2: "filter (\<lambda>v. v \<noteq> NaN) vs \<noteq> [] \<longrightarrow>
          series_max vs \<in> set (filter (\<lambda>v. v \<noteq> NaN) vs)
          \<and> series_min vs \<in> set (filter (\<lambda>v. v \<noteq> NaN) vs)
          \<and> (\<forall>v \<in> set (filter (\<lambda>v. v \<noteq> NaN) vs).
                fl_le v (series_max vs) \<and> fl_le (series_min vs) v)"
    using series_max_spec[of vs] series_min_spec[of vs] by blast
  have ex: "e - 366 \<le> year_before e \<and> year_before e \<le> e - 365 \<and> rnd 5 = 5 \<and> rnd 3 = 3 \<longrightarrow>
          build_current_table rnd year_before
            \<lparr>df_index = [Ts (e - 400), Ts (e - 10), Ts e],
             df_cols = [(''HY_OAS'', [Fin 1, Fin 3, Fin 5])]\<rparr>
          = Inr [\<lparr>Metric = ''HY OAS'', Current = Some (Fin 5),
                  High_1y = Some (Fin 5), Low_1y = Some (Fin 3)\<rparr>]"
    using current_table_example[of e year_before rnd] by blast
  show ?thesis
    using table[unfolded spec_def start_def n_def] last_label[unfolded n_def]
    by (intro conjI im1 im2 w1 w2 r1 r2 r3 r4 s1 s2 ex)
qed

theorem current_table_rounded_witness:
  "build_current_table example_round ((+) (- 365))
      \<lparr>df_index = [Ts 0, Ts 390, Ts 400], df_cols = [(''HY_OAS'', [Fin 1, Fin 3, Fin 5])]\<rparr>
    = Inr [\<lparr>Metric = ''HY OAS'', Current = Some (Fin 5),
            High_1y = Some (Fin 5), Low_1y = Some (Fin 3)\<rparr>]
   \<and> rounded_or_none example_round (Fin (617 / 500)) = Some (Fin (123 / 100))
   \<and> series_max [NaN, Fin 1, Fin 3] = Fin 3
   \<and> series_min [NaN, Fin 1, Fin 3] = Fin 1
   \<and> series_max [NaN] = NaN"
proof -
  let ?df = "\<lparr>df_index = [Ts 0, Ts 390, Ts 400], df_cols = [(''HY_OAS'', [Fin 1, Fin 3, Fin 5])]\<rparr>"
  have wf: "wf_df ?df" by (simp add: wf_df_def)
  have ne: "df_index ?df \<noteq> []" by simp
  note inst = current_table_rounded[OF wf ne, where rnd = example_round
      and year_before = "(+) (- 365)" and e = 400]
  have table: "build_current_table example_round ((+) (- 365)) ?df
    = Inr [\<lparr>Metric = ''HY OAS'', Current = Some (Fin 5),
            High_1y = Some (Fin 5), Low_1y = Some (Fin 3)\<rparr>]"
  proof -
    from inst[where vs = "[]"]
    have "(400::int) - 366 \<le> (+) (- 365) 400 \<and> (+) (- 365) 400 \<le> (400::int) - 365
          \<and> example_round 5 = 5 \<and> example_round 3 = 3 \<longrightarrow>
          build_current_table example_round ((+) (- 365))
            \<lparr>df_index = [Ts (400 - 400), Ts (400 - 10), Ts 400],
             df_cols = [(''HY_OAS'', [Fin 1, Fin 3, Fin 5])]\<rparr>
          = Inr [\<lparr>Metric = ''HY OAS'', Current = Some (Fin 5),
                  High_1y = Some (Fin 5), Low_1y = Some (Fin 3)\<rparr>]"
      by blast
    then show ?thesis by (simp add: example_round_def)
  qed
  from inst[where vs = "[]"]
  have "\<forall>x. rounded_or_none example_round (Fin x) = Some (Fin (example_round x))" by blast
  then have rd: "rounded_or_none example_round (Fin (617 / 500)) = Some (Fin (123 / 100))"
    by (simp add: example_round_def)
  have mx: "series_max [NaN, Fin 1, Fin 3] = Fin 3" and mn: "series_min [NaN, Fin 1, Fin 3] = Fin 1"
    using inst[where vs = "[NaN, Fin 1, Fin 3]"] by auto
  have nan: "series_max [NaN] = NaN"
    using inst[where vs = "[NaN]"] by simp
  from table rd mx mn nan show ?thesis by simp
qed

end
